theory Spec2Isabelle
  imports Main "HOL-Library.Finite_Map" "HOL-Library.AList"
begin

section \<open>JavaScript values\<close>

text \<open>
  The value, error and touched trees of \<^verbatim>\<open>Formik.tsx\<close> are plain JavaScript values.
  An object is a finite map from property names to values, so that equality of two
  trees is the deep equality \<^verbatim>\<open>isEqual\<close> (react-fast-compare) computes; an array is a
  list. Numbers are integers (no claim depends on fractions or NaN). \<open>ErrorObj\<close> is an
  exception object such as the TypeError the runtime throws.
\<close>

datatype jsval =
    Undefined
  | Null
  | Bool bool
  | Num int
  | Str string
  | Arr "jsval list"
  | Obj "(string, jsval) fmap"
  | ErrorObj string

text \<open>\<^verbatim>\<open>!!x\<close>: the falsy values are undefined, null, false, 0 and the empty string.\<close>

fun truthy :: "jsval \<Rightarrow> bool" where
  "truthy Undefined = False"
| "truthy Null = False"
| "truthy (Bool b) = b"
| "truthy (Num n) = (n \<noteq> 0)"
| "truthy (Str s) = (s \<noteq> [])"
| "truthy (Arr xs) = True"
| "truthy (Obj m) = True"
| "truthy (ErrorObj s) = True"

definition isEqual :: "jsval \<Rightarrow> jsval \<Rightarrow> bool" where
  "isEqual a b = (a = b)"

definition emptyObj :: jsval where
  "emptyObj = Obj fmempty"

subsection \<open>Decimal property names\<close>

definition isDigit :: "char \<Rightarrow> bool" where
  "isDigit c = (c \<in> set ''0123456789'')"

definition isIndex :: "string \<Rightarrow> bool" where
  "isIndex s = (s \<noteq> [] \<and> list_all isDigit s)"

definition digitVal :: "char \<Rightarrow> nat" where
  "digitVal c = of_char c - 48"

definition indexOf :: "string \<Rightarrow> nat" where
  "indexOf s = foldl (\<lambda>n c. 10 * n + digitVal c) 0 s"

definition digitChar :: "nat \<Rightarrow> char" where
  "digitChar d = char_of (48 + d)"

function showNat :: "nat \<Rightarrow> string" where
  "showNat n = (if n < 10 then [digitChar n] else showNat (n div 10) @ [digitChar (n mod 10)])"
  by pat_completeness auto
termination
  by (relation "measure id") auto

declare showNat.simps [simp del]

text \<open>
  \<^verbatim>\<open>obj[key]\<close>: a property read. A missing key, an index out of range and a read on a
  value that is no container give undefined. (Properties inherited from the prototype,
  and \<^verbatim>\<open>length\<close>, are not modelled.)
\<close>

fun getProp :: "jsval \<Rightarrow> string \<Rightarrow> jsval" where
  "getProp (Obj m) k = (case fmlookup m k of Some v \<Rightarrow> v | None \<Rightarrow> Undefined)"
| "getProp (Arr xs) k =
     (if isIndex k \<and> indexOf k < length xs then xs ! indexOf k else Undefined)"
| "getProp (Str s) k =
     (if isIndex k \<and> indexOf k < length s then Str [s ! indexOf k] else Undefined)"
| "getProp v k = Undefined"

text \<open>
  The own enumerable properties a \<^verbatim>\<open>for (k in v)\<close> loop guarded by
  \<^verbatim>\<open>hasOwnProperty\<close> visits, and \<^verbatim>\<open>Object.keys(v).length\<close>, which throws a TypeError
  (\<open>None\<close>) on undefined and null.
\<close>

fun ownProps :: "jsval \<Rightarrow> (string \<times> jsval) list" where
  "ownProps (Arr xs) = zip (map showNat [0..<length xs]) xs"
| "ownProps (Str s) = zip (map showNat [0..<length s]) (map (\<lambda>c. Str [c]) s)"
| "ownProps v = []"

fun numKeys :: "jsval \<Rightarrow> nat option" where
  "numKeys Undefined = None"
| "numKeys Null = None"
| "numKeys (Obj m) = Some (fcard (fmdom m))"
| "numKeys (Arr xs) = Some (length xs)"
| "numKeys (Str s) = Some (length s)"
| "numKeys v = Some 0"

section \<open>PathAddressing (\<^verbatim>\<open>getIn\<close>, \<^verbatim>\<open>setIn\<close> of \<^verbatim>\<open>./utils\<close>)\<close>

text \<open>
  Modelled from the spec: \<^verbatim>\<open>toPath\<close>, the parser of a path string, which lives in
  \<^verbatim>\<open>./utils\<close> and its dependencies. The spec (section 3): a path is a string such as
  \<^verbatim>\<open>address.street\<close> or \<^verbatim>\<open>items[2].name\<close>; segments separate object-key and
  array-index access. The segments are the maximal runs of characters between dots
  and brackets.
\<close>

fun splitPath :: "string \<Rightarrow> string \<Rightarrow> string list" where
  "splitPath cur [] = (if cur = [] then [] else [cur])"
| "splitPath cur (c # rest) =
     (if c = CHR ''.'' \<or> c = CHR ''['' \<or> c = CHR '']''
      then (if cur = [] then splitPath [] rest else cur # splitPath [] rest)
      else splitPath (cur @ [c]) rest)"

definition toPath :: "string \<Rightarrow> string list" where
  "toPath p = splitPath [] p"

text \<open>
  Modelled from the spec: \<^verbatim>\<open>getIn\<close> of \<^verbatim>\<open>./utils\<close>. The spec (4.1):
  \<^verbatim>\<open>get(tree, path)\<close> resolves nested object keys and array indices; missing
  intermediate nodes yield undefined, never throw.
\<close>

fun getInPath :: "jsval \<Rightarrow> string list \<Rightarrow> jsval" where
  "getInPath t [] = t"
| "getInPath t (k # ks) = getInPath (getProp t k) ks"

definition getIn :: "jsval \<Rightarrow> string \<Rightarrow> jsval" where
  "getIn t p = getInPath t (toPath p)"

text \<open>
  Modelled from the spec: \<^verbatim>\<open>setIn\<close> of \<^verbatim>\<open>./utils\<close>. The spec (4.1):
  \<^verbatim>\<open>set(tree, path, value)\<close> returns a new tree with the leaf at path replaced;
  intermediate containers are created as objects or arrays depending on whether the
  next path segment is numeric; \<^verbatim>\<open>get\<close> after \<^verbatim>\<open>set\<close> at the same path returns the
  written value. A path with no segment names no location: the tree is returned as it
  is (the spec, section 7: an input with no resolvable identity falls back to a no-op).
  An array written beyond its length is extended with undefined, as in JavaScript.
\<close>

definition isContainer :: "jsval \<Rightarrow> bool" where
  "isContainer v = (case v of Obj m \<Rightarrow> True | Arr xs \<Rightarrow> True | _ \<Rightarrow> False)"

definition emptyFor :: "string \<Rightarrow> jsval" where
  "emptyFor k = (if isIndex k then Arr [] else Obj fmempty)"

definition listPut :: "jsval list \<Rightarrow> nat \<Rightarrow> jsval \<Rightarrow> jsval list" where
  "listPut xs i v =
     (if i < length xs then xs[i := v] else xs @ replicate (i - length xs) Undefined @ [v])"

definition put :: "jsval \<Rightarrow> string \<Rightarrow> jsval \<Rightarrow> jsval" where
  "put t k v =
     (case t of
        Obj m \<Rightarrow> Obj (fmupd k v m)
      | Arr xs \<Rightarrow> (if isIndex k then Arr (listPut xs (indexOf k) v) else Obj (fmupd k v fmempty))
      | _ \<Rightarrow> (if isIndex k then Arr (listPut [] (indexOf k) v) else Obj (fmupd k v fmempty)))"

definition child :: "jsval \<Rightarrow> string \<Rightarrow> string \<Rightarrow> jsval" where
  "child t k k' = (if isContainer (getProp t k) then getProp t k else emptyFor k')"

fun setInPath :: "jsval \<Rightarrow> string list \<Rightarrow> jsval \<Rightarrow> jsval" where
  "setInPath t [] v = t"
| "setInPath t [k] v = put t k v"
| "setInPath t (k # k' # ks) v = put t k (setInPath (child t k k') (k' # ks) v)"

definition setIn :: "jsval \<Rightarrow> string \<Rightarrow> jsval \<Rightarrow> jsval" where
  "setIn t p v = setInPath t (toPath p) v"

section \<open>Calls of user functions and promises\<close>

text \<open>
  A promise is modelled by the way it settles. A call of a function the user
  configured (a validator, the submit or the reset handler) returns a plain value,
  returns a promise, or throws; these functions are modelled by that outcome alone.
\<close>

datatype settled = Fulfilled jsval | Rejected jsval

datatype ret = Plain jsval | Promise settled

datatype call = Return ret | Throw jsval

text \<open>Modelled from the spec: \<^verbatim>\<open>isPromise\<close> of \<^verbatim>\<open>./utils\<close> (an awaitable).\<close>

definition isPromise :: "ret \<Rightarrow> bool" where
  "isPromise r = (case r of Promise s \<Rightarrow> True | Plain v \<Rightarrow> False)"

text \<open>
  \<^verbatim>\<open>new Promise(resolve => resolve(f(x)))\<close> and \<^verbatim>\<open>Promise.resolve(f(x))\<close> inside a
  \<^verbatim>\<open>then\<close> callback: the promise adopts a returned promise and rejects with what the
  call throws.
\<close>

definition promiseOfCall :: "call \<Rightarrow> settled" where
  "promiseOfCall c =
     (case c of
        Return (Plain v) \<Rightarrow> Fulfilled v
      | Return (Promise s) \<Rightarrow> s
      | Throw e \<Rightarrow> Rejected e)"

text \<open>\<^verbatim>\<open>p.then(f, g)\<close> for callbacks that return plain values.\<close>

definition thenBoth :: "settled \<Rightarrow> (jsval \<Rightarrow> jsval) \<Rightarrow> (jsval \<Rightarrow> jsval) \<Rightarrow> settled" where
  "thenBoth p f g = (case p of Fulfilled x \<Rightarrow> Fulfilled (f x) | Rejected e \<Rightarrow> Fulfilled (g e))"

text \<open>\<^verbatim>\<open>Promise.all\<close>: the array of the results, or the first rejection.\<close>

fun promiseAll :: "settled list \<Rightarrow> settled" where
  "promiseAll [] = Fulfilled (Arr [])"
| "promiseAll (Rejected e # ps) = Rejected e"
| "promiseAll (Fulfilled v # ps) =
     (case promiseAll ps of
        Fulfilled (Arr vs) \<Rightarrow> Fulfilled (Arr (v # vs))
      | r \<Rightarrow> r)"

section \<open>The three validation sources\<close>

subsection \<open>Field-level validation\<close>

text \<open>
  \<^verbatim>\<open>this.fields\<close> maps a field name to the mounted component; of the component only
  \<^verbatim>\<open>props.validate\<close> is read. The registry keeps insertion order, which
  \<^verbatim>\<open>Object.keys\<close> returns.
\<close>

type_synonym validate = "jsval \<Rightarrow> call"

type_synonym field = "validate option"

definition sentinel :: string where
  "sentinel = ''DO_NOT_DELETE_YOU_WILL_BE_FIRED''"

definition callValidate :: "(string \<times> field) list \<Rightarrow> string \<Rightarrow> jsval \<Rightarrow> call" where
  "callValidate flds f v =
     (case map_of flds f of
        Some (Some validate) \<Rightarrow> validate v
      | _ \<Rightarrow> Throw (ErrorObj ''TypeError''))"

definition runSingleFieldLevelValidation ::
    "(string \<times> field) list \<Rightarrow> string \<Rightarrow> jsval \<Rightarrow> settled" where
  "runSingleFieldLevelValidation flds f v =
     thenBoth (promiseOfCall (callValidate flds f v)) (\<lambda>x. x) (\<lambda>e. e)"

definition fieldKeysWithValidation :: "(string \<times> field) list \<Rightarrow> string list" where
  "fieldKeysWithValidation flds =
     filter (\<lambda>f. case map_of flds f of Some (Some validate) \<Rightarrow> True | _ \<Rightarrow> False)
       (map fst flds)"

text \<open>The callback of \<^verbatim>\<open>fieldErrorsList.reduce\<close>, with the index it receives.\<close>

fun reduceFieldErrors :: "string list \<Rightarrow> jsval \<Rightarrow> jsval list \<Rightarrow> nat \<Rightarrow> jsval" where
  "reduceFieldErrors fkeys prev [] index = prev"
| "reduceFieldErrors fkeys prev (cur # rest) index =
     (if cur = Str sentinel then reduceFieldErrors fkeys prev rest (Suc index)
      else if truthy cur
        then reduceFieldErrors fkeys
               (setIn prev (if index < length fkeys then fkeys ! index else []) cur)
               rest (Suc index)
      else reduceFieldErrors fkeys prev rest (Suc index))"

definition runFieldLevelValidations :: "(string \<times> field) list \<Rightarrow> jsval \<Rightarrow> settled" where
  "runFieldLevelValidations flds vals =
     (let fkeys = fieldKeysWithValidation flds;
          fieldValidations =
            (if length fkeys > 0
             then map (\<lambda>f. runSingleFieldLevelValidation flds f (getIn vals f)) fkeys
             else [Fulfilled (Str sentinel)])
      in case promiseAll fieldValidations of
           Fulfilled (Arr fieldErrorsList) \<Rightarrow>
             Fulfilled (reduceFieldErrors fkeys emptyObj fieldErrorsList 0)
         | Fulfilled v \<Rightarrow> Fulfilled v
         | Rejected e \<Rightarrow> Rejected e)"

subsection \<open>Handler-level validation\<close>

definition runValidateHandler :: "validate \<Rightarrow> jsval \<Rightarrow> settled" where
  "runValidateHandler validate vals =
     (case validate vals of
        Throw e \<Rightarrow> Rejected e
      | Return maybePromisedErrors \<Rightarrow>
          (if maybePromisedErrors = Plain Undefined then Fulfilled emptyObj
           else if isPromise maybePromisedErrors then
             (case maybePromisedErrors of
                Promise (Fulfilled v) \<Rightarrow> Fulfilled emptyObj
              | Promise (Rejected errors) \<Rightarrow> Fulfilled errors
              | Plain v \<Rightarrow> Fulfilled v)
           else
             (case maybePromisedErrors of
                Plain v \<Rightarrow> Fulfilled v
              | Promise s \<Rightarrow> s)))"

subsection \<open>Schema-level validation\<close>

text \<open>
  The schema library is an outside collaborator: a schema is the function from the
  data it is given to the way its promise settles, fulfilled or rejected with a
  ValidationError (\<^verbatim>\<open>path\<close>, \<^verbatim>\<open>message\<close> and the list \<^verbatim>\<open>inner\<close> of path and message
  entries).
\<close>

record yupError =
  path :: string
  message :: string
  inner :: "(string \<times> string) list"

datatype yupResult = YupValid jsval | YupInvalid yupError

type_synonym schema = "jsval \<Rightarrow> yupResult"

fun yupInner :: "jsval \<Rightarrow> (string \<times> string) list \<Rightarrow> jsval" where
  "yupInner errors [] = errors"
| "yupInner errors ((p, m) # rest) =
     yupInner (if \<not> truthy (getProp errors p) then setIn errors p (Str m) else errors) rest"

definition yupToFormErrors :: "yupError \<Rightarrow> jsval" where
  "yupToFormErrors yupError =
     (if length (inner yupError) = 0
      then setIn emptyObj (path yupError) (Str (message yupError))
      else yupInner emptyObj (inner yupError))"

text \<open>
  \<^verbatim>\<open>validateData\<close> of \<^verbatim>\<open>validateYupSchema\<close>: a new object with one entry for each own
  property of \<^verbatim>\<open>values\<close>.
\<close>

definition blankToUndefined :: "jsval \<Rightarrow> jsval" where
  "blankToUndefined v = (if v \<noteq> Str [] then v else Undefined)"

definition validateData :: "jsval \<Rightarrow> jsval" where
  "validateData vals =
     (case vals of
        Obj m \<Rightarrow> Obj (fmmap blankToUndefined m)
      | _ \<Rightarrow> Obj (fmap_of_list (map (\<lambda>(k, v). (k, blankToUndefined v)) (ownProps vals))))"

definition validateYupSchema :: "jsval \<Rightarrow> schema \<Rightarrow> yupResult" where
  "validateYupSchema vals schema = schema (validateData vals)"

definition runValidationSchema :: "schema \<Rightarrow> jsval \<Rightarrow> settled" where
  "runValidationSchema validationSchema vals =
     (case validateYupSchema vals validationSchema of
        YupValid v \<Rightarrow> Fulfilled emptyObj
      | YupInvalid err \<Rightarrow> Fulfilled (yupToFormErrors err))"

section \<open>The controller\<close>

subsection \<open>State, props and the event loop\<close>

text \<open>
  \<^verbatim>\<open>this.state\<close> of the component (\<^verbatim>\<open>FormikState\<close>, and the deprecated \<^verbatim>\<open>error\<close>
  that \<^verbatim>\<open>setError\<close> and \<^verbatim>\<open>resetForm\<close> write).
\<close>

record fstate =
  values_s :: jsval
  errors :: jsval
  touched :: jsval
  isSubmitting :: bool
  isValidating :: bool
  submitCount :: nat
  status :: jsval
  error :: jsval

text \<open>
  The props the operations below read; they do not change during a trace (so
  \<^verbatim>\<open>componentDidUpdate\<close>, which reacts to new props, has no event). \<open>deepmergeAll\<close>
  is not a prop: it stands for the call \<^verbatim>\<open>deepmerge.all(trees, {arrayMerge})\<close> of the
  deepmerge package, a library outside the repository, which the pipeline applies to
  the three error trees. It is a parameter of the model: nothing proved below depends
  on how trees are merged.
\<close>

record config =
  validateOnChange :: bool
  validateOnBlur :: bool
  initialValues_p :: jsval
  initialStatus :: jsval
  validate_p :: "validate option"
  validationSchema :: "schema option"
  onSubmit :: "jsval \<Rightarrow> call"
  onReset :: "(jsval \<Rightarrow> call) option"
  deepmergeAll :: "jsval list \<Rightarrow> jsval"

text \<open>
  The work the event loop still has to do. A pending promise is a task: the promise
  \<^verbatim>\<open>runValidations\<close> wraps with \<^verbatim>\<open>makeCancelable\<close> (with the way the pipeline
  settles, fixed when the validators were called, and the caller whose \<^verbatim>\<open>then\<close> is
  chained on it), the promise of \<^verbatim>\<open>validateField\<close>, and the promise a reset handler
  returned. When a task settles is the environment's choice (the event \<open>Settle\<close>);
  a promise that never settles is a task that is never chosen.
\<close>

datatype caller = ByRunValidations | ByValidateForm | BySubmitForm

datatype task =
    ValidationRun caller settled
  | FieldValidation string settled
  | ResetPromise settled

text \<open>The function objects \<^verbatim>\<open>handleChange\<close> and \<^verbatim>\<open>handleBlur\<close> create, with the path they close over.\<close>

datatype closure = ChangeHandler string | BlurHandler string

text \<open>
  The caches \<^verbatim>\<open>hcCache\<close> and \<^verbatim>\<open>hbCache\<close> are object literals \<^verbatim>\<open>{}\<close>, so a read
  \<^verbatim>\<open>cache[path]\<close> that finds no own property goes on along the prototype chain. A
  function object is a closure the controller made, by its number, or a built-in of
  the runtime, by its name. The own properties of a cache are the closures stored
  under their paths. Its prototype is \<^verbatim>\<open>Object.prototype\<close> (\<open>None\<close>) until the
  assignment \<^verbatim>\<open>cache['__proto__'] = f\<close>, which runs the inherited setter and makes
  the closure \<open>f\<close> the prototype (\<open>Some f\<close>); the chain is then the arrow function
  \<open>f\<close>, \<^verbatim>\<open>Function.prototype\<close>, \<^verbatim>\<open>Object.prototype\<close>.
\<close>

datatype fnobj = Closure nat | Builtin string

record cacheObj =
  own :: "string \<rightharpoonup> nat"
  protoFn :: "nat option"

definition emptyCache :: cacheObj where
  "emptyCache = \<lparr>own = Map.empty, protoFn = None\<rparr>"

text \<open>
  What a read finds, as far as the test \<^verbatim>\<open>isFunction\<close> (of \<^verbatim>\<open>./utils\<close>: is the value
  a function object) can tell: a function, something that is no function (undefined
  included), or a TypeError thrown by the read.
\<close>

datatype lookup = Function fnobj | NotAFunction | TypeErrorThrown

definition objectPrototypeMethods :: "string list" where
  "objectPrototypeMethods =
     [''__defineGetter__'', ''__defineSetter__'', ''hasOwnProperty'', ''__lookupGetter__'',
      ''__lookupSetter__'', ''isPrototypeOf'', ''propertyIsEnumerable'', ''toString'',
      ''valueOf'', ''toLocaleString'']"

definition functionPrototypeMethods :: "string list" where
  "functionPrototypeMethods = [''apply'', ''bind'', ''call'', ''toString'']"

text \<open>The string-named properties of \<^verbatim>\<open>Object.prototype\<close> but \<^verbatim>\<open>__proto__\<close>.\<close>

definition fromObjectPrototype :: "string \<Rightarrow> lookup" where
  "fromObjectPrototype p =
     (if p = ''constructor'' then Function (Builtin ''Object'')
      else if p \<in> set objectPrototypeMethods then Function (Builtin (''Object.prototype.'' @ p))
      else NotAFunction)"

text \<open>
  \<^verbatim>\<open>Function.prototype\<close>: its methods, the numbers and strings \<^verbatim>\<open>length\<close> and
  \<^verbatim>\<open>name\<close>, and the accessors \<^verbatim>\<open>arguments\<close> and \<^verbatim>\<open>caller\<close>, which throw.
\<close>

definition fromFunctionPrototype :: "string \<Rightarrow> lookup" where
  "fromFunctionPrototype p =
     (if p = ''constructor'' then Function (Builtin ''Function'')
      else if p \<in> set functionPrototypeMethods
        then Function (Builtin (''Function.prototype.'' @ p))
      else if p = ''length'' \<or> p = ''name'' then NotAFunction
      else if p = ''arguments'' \<or> p = ''caller'' then TypeErrorThrown
      else fromObjectPrototype p)"

text \<open>An arrow function has the own properties \<^verbatim>\<open>length\<close> and \<^verbatim>\<open>name\<close>, not writable.\<close>

definition fromArrowFunction :: "string \<Rightarrow> lookup" where
  "fromArrowFunction p =
     (if p = ''length'' \<or> p = ''name'' then NotAFunction else fromFunctionPrototype p)"

text \<open>The read \<^verbatim>\<open>cache[path]\<close>.\<close>

definition cacheGet :: "cacheObj \<Rightarrow> string \<Rightarrow> lookup" where
  "cacheGet cache p =
     (if p = ''__proto__'' then
        (case protoFn cache of None \<Rightarrow> NotAFunction | Some f \<Rightarrow> Function (Closure f))
      else
        (case own cache p of
           Some h \<Rightarrow> Function (Closure h)
         | None \<Rightarrow>
             (case protoFn cache of
                None \<Rightarrow> fromObjectPrototype p
              | Some f \<Rightarrow> fromArrowFunction p)))"

text \<open>
  The assignment \<^verbatim>\<open>cache[path] = h\<close> in strict code (a class body is strict): the
  setter for \<^verbatim>\<open>__proto__\<close>; a TypeError (\<open>None\<close>) where the chain holds a property
  of that name that is not writable; a new own property otherwise.
\<close>

definition cachePut :: "cacheObj \<Rightarrow> string \<Rightarrow> nat \<Rightarrow> cacheObj option" where
  "cachePut cache p h =
     (if p = ''__proto__'' then Some (cache\<lparr>protoFn := Some h\<rparr>)
      else if own cache p = None \<and> protoFn cache \<noteq> None \<and> (p = ''length'' \<or> p = ''name'')
        then None
      else Some (cache\<lparr>own := (own cache)(p \<mapsto> h)\<rparr>))"

text \<open>What a call of \<^verbatim>\<open>handleChange\<close> or \<^verbatim>\<open>handleBlur\<close> gives back.\<close>

datatype handlerResult = Returned fnobj | ReturnedUndefined | Threw

definition resultOf :: "lookup \<Rightarrow> handlerResult" where
  "resultOf l =
     (case l of
        Function f \<Rightarrow> Returned f
      | NotAFunction \<Rightarrow> ReturnedUndefined
      | TypeErrorThrown \<Rightarrow> Threw)"

text \<open>
  The instance: \<^verbatim>\<open>this.state\<close> and the instance fields of the class, then the
  heap of the model. \<open>validator\<close> holds the \<^verbatim>\<open>cancel\<close> function of a run, named by
  the run's number; \<open>hasCanceled\<close> is the flag each \<^verbatim>\<open>makeCancelable\<close> closes over; a
  function object is a number in \<open>closures\<close>; \<open>submitted\<close> lists the values
  \<^verbatim>\<open>props.onSubmit\<close> was called with (its second argument is always
  \<^verbatim>\<open>getFormikActions()\<close>); \<open>returned\<close> records how the promise returned by the call
  that made a task settles.
\<close>

record formik =
  state :: fstate
  initialValues :: jsval
  didMount :: bool
  hcCache :: cacheObj
  hbCache :: cacheObj
  fields_r :: "(string \<times> field) list"
  validator :: "nat option"
  closures :: "nat \<rightharpoonup> closure"
  tasks :: "nat \<rightharpoonup> task"
  hasCanceled :: "nat \<Rightarrow> bool"
  nextId :: nat
  submitted :: "jsval list"
  returned :: "nat \<rightharpoonup> settled"

text \<open>
  \<^verbatim>\<open>this.setState\<close>, applied at once and in call order; its callback runs right
  after. (React's batching, and what React itself does with an update of an unmounted
  component, are outside the model: \<open>didMount\<close> is the guard the code has.)
\<close>

definition setState :: "(fstate \<Rightarrow> fstate) \<Rightarrow> formik \<Rightarrow> formik" where
  "setState f c = c\<lparr>state := f (state c)\<rparr>"

text \<open>The constructor.\<close>

definition orEmpty :: "jsval \<Rightarrow> jsval" where
  "orEmpty v = (if truthy v then v else emptyObj)"

definition init :: "config \<Rightarrow> formik" where
  "init P =
     \<lparr>state =
        \<lparr>values_s = orEmpty (initialValues_p P), errors = emptyObj, touched = emptyObj,
         isSubmitting = False, isValidating = False, submitCount = 0,
         status = initialStatus P, error = Undefined\<rparr>,
      initialValues = orEmpty (initialValues_p P),
      didMount = False,
      hcCache = emptyCache, hbCache = emptyCache,
      fields_r = [],
      validator = None,
      closures = Map.empty, tasks = Map.empty, hasCanceled = (\<lambda>i. False), nextId = 0,
      submitted = [], returned = Map.empty\<rparr>"

subsection \<open>CancelableTask (\<^verbatim>\<open>makeCancelable\<close> of \<^verbatim>\<open>./utils\<close>)\<close>

text \<open>
  Modelled from the spec: \<^verbatim>\<open>makeCancelable\<close> of \<^verbatim>\<open>./utils\<close>, which is not among the
  sources. The spec (4.2): the task wraps a pending computation with a cancellation
  flag and returns a handle exposing \<^verbatim>\<open>cancel()\<close>; when the computation finishes, if
  \<^verbatim>\<open>cancel()\<close> was called before, the result is silently dropped (neither the
  fulfilment nor the rejection path fires any observable effect), otherwise it is
  delivered normally. \<open>makeCancelable i\<close> starts task \<open>i\<close> with its flag down,
  \<open>cancel i\<close> is the handle of task \<open>i\<close>, and \<open>wrappedPromise\<close> is what the wrapped
  promise delivers when the computation finishes with \<open>r\<close>: \<open>None\<close> for a dropped
  result.
\<close>

definition makeCancelable :: "nat \<Rightarrow> formik \<Rightarrow> formik" where
  "makeCancelable i c = c\<lparr>hasCanceled := (hasCanceled c)(i := False)\<rparr>"

definition cancel :: "nat \<Rightarrow> formik \<Rightarrow> formik" where
  "cancel i c = c\<lparr>hasCanceled := (hasCanceled c)(i := True)\<rparr>"

definition wrappedPromise :: "formik \<Rightarrow> nat \<Rightarrow> settled \<Rightarrow> settled option" where
  "wrappedPromise c i r = (if hasCanceled c i then None else Some r)"

subsection \<open>Registry and mounting\<close>

definition registerField :: "string \<Rightarrow> field \<Rightarrow> formik \<Rightarrow> formik" where
  "registerField name component c = c\<lparr>fields_r := AList.update name component (fields_r c)\<rparr>"

definition unregisterField :: "string \<Rightarrow> formik \<Rightarrow> formik" where
  "unregisterField name c = c\<lparr>fields_r := AList.delete name (fields_r c)\<rparr>"

definition componentDidMount :: "formik \<Rightarrow> formik" where
  "componentDidMount c = c\<lparr>didMount := True\<rparr>"

definition componentWillUnmount :: "formik \<Rightarrow> formik" where
  "componentWillUnmount c =
     (let c1 = c\<lparr>didMount := False\<rparr>
      in case validator c1 of Some i \<Rightarrow> cancel i c1 | None \<Rightarrow> c1)"

subsection \<open>Whole-form validation\<close>

text \<open>
  The promise \<^verbatim>\<open>runValidations\<close> hands to \<^verbatim>\<open>makeCancelable\<close>: \<^verbatim>\<open>Promise.all\<close> of
  the three sources, then the merge.
\<close>

definition pipeline :: "config \<Rightarrow> (string \<times> field) list \<Rightarrow> jsval \<Rightarrow> settled" where
  "pipeline P flds vals =
     (case promiseAll
             [runFieldLevelValidations flds vals,
              (case validationSchema P of
                 Some s \<Rightarrow> runValidationSchema s vals | None \<Rightarrow> Fulfilled emptyObj),
              (case validate_p P of
                 Some v \<Rightarrow> runValidateHandler v vals | None \<Rightarrow> Fulfilled emptyObj)] of
        Fulfilled (Arr [fieldErrors, schemaErrors, handlerErrors]) \<Rightarrow>
          Fulfilled (deepmergeAll P [fieldErrors, schemaErrors, handlerErrors])
      | Fulfilled v \<Rightarrow> Fulfilled v
      | Rejected e \<Rightarrow> Rejected e)"

text \<open>
  \<^verbatim>\<open>runValidations\<close> up to its \<^verbatim>\<open>return\<close>: cancel the stored handle, start the
  pipeline, store the new handle. The run is the task \<open>nextId c\<close>.
\<close>

definition runValidations :: "config \<Rightarrow> jsval \<Rightarrow> caller \<Rightarrow> formik \<Rightarrow> formik" where
  "runValidations P vals k c =
     (let c1 = (case validator c of Some i \<Rightarrow> cancel i c | None \<Rightarrow> c);
          i = nextId c1;
          c2 = makeCancelable i c1
      in c2\<lparr>tasks := (tasks c2)(i \<mapsto> ValidationRun k (pipeline P (fields_r c2) vals)),
            validator := Some i,
            nextId := Suc i\<rparr>)"

text \<open>
  The \<^verbatim>\<open>then\<close> and \<^verbatim>\<open>catch\<close> chained on the wrapped promise in \<^verbatim>\<open>runValidations\<close>:
  the state after them and the value the returned promise fulfils with.
\<close>

definition commitErrors :: "jsval \<Rightarrow> fstate \<Rightarrow> fstate" where
  "commitErrors errs prevState =
     (if \<not> isEqual (errors prevState) errs then prevState\<lparr>errors := errs\<rparr> else prevState)"

definition afterRun :: "settled \<Rightarrow> formik \<Rightarrow> formik \<times> jsval" where
  "afterRun r c =
     (case r of
        Fulfilled errs \<Rightarrow> ((if didMount c then setState (commitErrors errs) c else c), errs)
      | Rejected x \<Rightarrow> (c, x))"

definition executeSubmit :: "config \<Rightarrow> formik \<Rightarrow> formik \<times> call" where
  "executeSubmit P c =
     (c\<lparr>submitted := submitted c @ [values_s (state c)]\<rparr>, onSubmit P (values_s (state c)))"

text \<open>The \<^verbatim>\<open>then\<close> callback of \<^verbatim>\<open>submitForm\<close> and of \<^verbatim>\<open>validateForm\<close>.\<close>

definition afterSubmitValidation :: "config \<Rightarrow> jsval \<Rightarrow> formik \<Rightarrow> formik \<times> settled" where
  "afterSubmitValidation P combinedErrors c =
     (let c1 = (if didMount c then setState (\<lambda>s. s\<lparr>isValidating := False\<rparr>) c else c)
      in case numKeys combinedErrors of
           None \<Rightarrow> (c1, Rejected (ErrorObj ''TypeError''))
         | Some n \<Rightarrow>
             (if n = 0 then
                (let (c2, r) = executeSubmit P c1 in (c2, promiseOfCall r))
              else if didMount c1 then
                (setState (\<lambda>s. s\<lparr>isSubmitting := False\<rparr>) c1, Fulfilled Undefined)
              else (c1, Fulfilled Undefined)))"

definition afterValidateForm :: "jsval \<Rightarrow> formik \<Rightarrow> formik \<times> settled" where
  "afterValidateForm errs c =
     ((if didMount c then setState (\<lambda>s. s\<lparr>isValidating := False\<rparr>) c else c), Fulfilled errs)"

definition settleRun :: "config \<Rightarrow> nat \<Rightarrow> caller \<Rightarrow> settled \<Rightarrow> formik \<Rightarrow> formik" where
  "settleRun P i k r c =
     (case wrappedPromise c i r of
        None \<Rightarrow> c
      | Some r' \<Rightarrow>
          (let (c1, errs) = afterRun r' c;
               (c2, res) =
                 (case k of
                    ByRunValidations \<Rightarrow> (c1, Fulfilled errs)
                  | ByValidateForm \<Rightarrow> afterValidateForm errs c1
                  | BySubmitForm \<Rightarrow> afterSubmitValidation P errs c1)
           in c2\<lparr>returned := (returned c2)(i \<mapsto> res)\<rparr>))"

subsection \<open>Mutators\<close>

definition setErrors :: "jsval \<Rightarrow> formik \<Rightarrow> formik" where
  "setErrors errs c = setState (\<lambda>s. s\<lparr>errors := errs\<rparr>) c"

definition setTouched :: "config \<Rightarrow> jsval \<Rightarrow> formik \<Rightarrow> formik" where
  "setTouched P t c =
     (let c1 = setState (\<lambda>s. s\<lparr>touched := t\<rparr>) c
      in if validateOnBlur P then runValidations P (values_s (state c1)) ByRunValidations c1
         else c1)"

definition setValues :: "config \<Rightarrow> jsval \<Rightarrow> formik \<Rightarrow> formik" where
  "setValues P vals c =
     (let c1 = setState (\<lambda>s. s\<lparr>values_s := vals\<rparr>) c
      in if validateOnChange P then runValidations P vals ByRunValidations c1 else c1)"

definition setStatus :: "jsval \<Rightarrow> formik \<Rightarrow> formik" where
  "setStatus st c = setState (\<lambda>s. s\<lparr>status := st\<rparr>) c"

definition setError :: "jsval \<Rightarrow> formik \<Rightarrow> formik" where
  "setError e c = setState (\<lambda>s. s\<lparr>error := e\<rparr>) c"

definition setSubmitting :: "bool \<Rightarrow> formik \<Rightarrow> formik" where
  "setSubmitting b c = (if didMount c then setState (\<lambda>s. s\<lparr>isSubmitting := b\<rparr>) c else c)"

definition setFieldValue :: "config \<Rightarrow> string \<Rightarrow> jsval \<Rightarrow> bool \<Rightarrow> formik \<Rightarrow> formik" where
  "setFieldValue P field v shouldValidate c =
     (if didMount c then
        (let c1 = setState (\<lambda>s. s\<lparr>values_s := setIn (values_s s) field v\<rparr>) c
         in if validateOnChange P \<and> shouldValidate
            then runValidations P (values_s (state c1)) ByRunValidations c1
            else c1)
      else c)"

definition setFieldTouched :: "config \<Rightarrow> string \<Rightarrow> bool \<Rightarrow> bool \<Rightarrow> formik \<Rightarrow> formik" where
  "setFieldTouched P field t shouldValidate c =
     (let c1 = setState (\<lambda>s. s\<lparr>touched := setIn (touched s) field (Bool t)\<rparr>) c
      in if validateOnBlur P \<and> shouldValidate
         then runValidations P (values_s (state c1)) ByRunValidations c1
         else c1)"

definition setFieldError :: "string \<Rightarrow> jsval \<Rightarrow> formik \<Rightarrow> formik" where
  "setFieldError field msg c = setState (\<lambda>s. s\<lparr>errors := setIn (errors s) field msg\<rparr>) c"

definition setFormikState :: "(fstate \<Rightarrow> fstate) \<Rightarrow> formik \<Rightarrow> formik" where
  "setFormikState f c = setState f c"

subsection \<open>Single-field and whole-form validation entry points\<close>

definition validateField :: "string \<Rightarrow> formik \<Rightarrow> formik" where
  "validateField field c =
     (let c1 = setState (\<lambda>s. s\<lparr>isValidating := True\<rparr>) c;
          i = nextId c1
      in c1\<lparr>tasks := (tasks c1)(i \<mapsto> FieldValidation field
                 (runSingleFieldLevelValidation (fields_r c1) field
                    (getIn (values_s (state c1)) field))),
            nextId := Suc i\<rparr>)"

definition settleField :: "nat \<Rightarrow> string \<Rightarrow> settled \<Rightarrow> formik \<Rightarrow> formik" where
  "settleField i field r c =
     (case r of
        Fulfilled err \<Rightarrow>
          (let c1 = (if didMount c
                     then setState (\<lambda>s. s\<lparr>errors := setIn (errors s) field err,
                                            isValidating := False\<rparr>) c
                     else c)
           in c1\<lparr>returned := (returned c1)(i \<mapsto> Fulfilled err)\<rparr>)
      | Rejected e \<Rightarrow> c\<lparr>returned := (returned c)(i \<mapsto> Rejected e)\<rparr>)"

definition validateForm :: "config \<Rightarrow> jsval \<Rightarrow> formik \<Rightarrow> formik" where
  "validateForm P vals c =
     runValidations P vals ByValidateForm (setState (\<lambda>s. s\<lparr>isValidating := True\<rparr>) c)"

subsection \<open>Submission\<close>

text \<open>
  Modelled from the spec: \<^verbatim>\<open>setNestedObjectValues\<close> of \<^verbatim>\<open>./utils\<close>, applied with
  \<^verbatim>\<open>true\<close>. The spec (4.1): \<^verbatim>\<open>setNestedAllTrue\<close> rebuilds the shape of the value tree
  with every leaf replaced by true.
\<close>

primrec setNestedAllTrue :: "jsval \<Rightarrow> jsval" where
  "setNestedAllTrue Undefined = Bool True"
| "setNestedAllTrue Null = Bool True"
| "setNestedAllTrue (Bool b) = Bool True"
| "setNestedAllTrue (Num n) = Bool True"
| "setNestedAllTrue (Str s) = Bool True"
| "setNestedAllTrue (Arr xs) = Arr (map setNestedAllTrue xs)"
| "setNestedAllTrue (Obj m) = Obj (fmmap setNestedAllTrue m)"
| "setNestedAllTrue (ErrorObj s) = Bool True"

definition submitForm :: "config \<Rightarrow> formik \<Rightarrow> formik" where
  "submitForm P c =
     (let c1 = setState (\<lambda>prevState. prevState
                  \<lparr>touched := setNestedAllTrue (values_s prevState),
                   isSubmitting := True,
                   isValidating := True,
                   submitCount := submitCount prevState + 1\<rparr>) c
      in runValidations P (values_s (state c1)) BySubmitForm c1)"

subsection \<open>Reset\<close>

definition resetForm :: "config \<Rightarrow> jsval \<Rightarrow> formik \<Rightarrow> formik" where
  "resetForm P nextValues c =
     (let vals = (if truthy nextValues then nextValues else initialValues_p P)
      in (c\<lparr>initialValues := vals\<rparr>)
           \<lparr>state := \<lparr>values_s = vals, errors = emptyObj, touched = emptyObj,
                      isSubmitting = False, isValidating = False, submitCount = 0,
                      status = initialStatus P, error = Undefined\<rparr>\<rparr>)"

definition handleReset :: "config \<Rightarrow> formik \<Rightarrow> formik" where
  "handleReset P c =
     (case onReset P of
        Some h \<Rightarrow>
          (case h (values_s (state c)) of
             Throw e \<Rightarrow> c
           | Return maybePromisedOnReset \<Rightarrow>
               (if isPromise maybePromisedOnReset then
                  (case maybePromisedOnReset of
                     Promise s \<Rightarrow>
                       c\<lparr>tasks := (tasks c)(nextId c \<mapsto> ResetPromise s),
                         nextId := Suc (nextId c)\<rparr>
                   | Plain v \<Rightarrow> c)
                else resetForm P Undefined c))
      | None \<Rightarrow> resetForm P Undefined c)"

definition settleReset :: "config \<Rightarrow> settled \<Rightarrow> formik \<Rightarrow> formik" where
  "settleReset P r c = (case r of Fulfilled v \<Rightarrow> resetForm P v c | Rejected e \<Rightarrow> c)"

subsection \<open>Change and blur handlers\<close>

text \<open>
  What the code reads of an input event: \<^verbatim>\<open>event.target\<close>. Resolving an identity
  from a UI event is the event adapter's work: \<^verbatim>\<open>parseFloat(value)\<close> comes with the
  event (\<open>None\<close> for NaN).
\<close>

record target =
  type_t :: string
  name_t :: string
  id_t :: string
  value_t :: jsval
  checked_t :: bool
  parseFloat_t :: "int option"

datatype eventOrValue = InputEvent target | Value jsval

datatype eventOrPath = Path string | Event target

fun isPrefixOf :: "string \<Rightarrow> string \<Rightarrow> bool" where
  "isPrefixOf [] s = True"
| "isPrefixOf (c # cs) [] = False"
| "isPrefixOf (c # cs) (d # ds) = (c = d \<and> isPrefixOf cs ds)"

fun regexTest :: "string \<Rightarrow> string \<Rightarrow> bool" where
  "regexTest w [] = (w = [])"
| "regexTest w (c # cs) = (isPrefixOf w (c # cs) \<or> regexTest w cs)"

definition eventValue :: "target \<Rightarrow> jsval" where
  "eventValue t =
     (let v0 = value_t t;
          v1 = (if regexTest ''number'' (type_t t) \<or> regexTest ''range'' (type_t t)
                then (case parseFloat_t t of None \<Rightarrow> Str [] | Some n \<Rightarrow> Num n)
                else v0)
      in if regexTest ''checkbox'' (type_t t) then Bool (checked_t t) else v1)"

definition executeChange :: "config \<Rightarrow> eventOrValue \<Rightarrow> string \<Rightarrow> formik \<Rightarrow> formik" where
  "executeChange P ev maybePath c =
     (let (field, v) =
            (case ev of
               InputEvent t \<Rightarrow>
                 ((if maybePath \<noteq> [] then maybePath
                   else if name_t t \<noteq> [] then name_t t else id_t t),
                  eventValue t)
             | Value x \<Rightarrow> (maybePath, x))
      in if field \<noteq> [] then
           (let c1 = setState (\<lambda>s. s\<lparr>values_s := setIn (values_s s) field v\<rparr>) c
            in if validateOnChange P
               then runValidations P (setIn (values_s (state c1)) field v) ByRunValidations c1
               else c1)
         else c)"

text \<open>
  \<^verbatim>\<open>handleChange\<close>, with what it returns. In the path mode the test
  \<^verbatim>\<open>!isFunction(this.hcCache[path])\<close> reads the cache; only if the read finds no
  function is a new closure made and assigned; the \<^verbatim>\<open>return\<close> reads the cache again.
  A TypeError of the read or of the assignment leaves the instance as it was.
\<close>

definition handleChange ::
    "config \<Rightarrow> eventOrPath \<Rightarrow> formik \<Rightarrow> handlerResult \<times> formik" where
  "handleChange P e c =
     (case e of
        Path p \<Rightarrow>
          (case cacheGet (hcCache c) p of
             TypeErrorThrown \<Rightarrow> (Threw, c)
           | Function f \<Rightarrow> (resultOf (cacheGet (hcCache c) p), c)
           | NotAFunction \<Rightarrow>
               (case cachePut (hcCache c) p (nextId c) of
                  None \<Rightarrow> (Threw, c)
                | Some cache \<Rightarrow>
                    (resultOf (cacheGet cache p),
                     c\<lparr>hcCache := cache,
                       closures := (closures c)(nextId c \<mapsto> ChangeHandler p),
                       nextId := Suc (nextId c)\<rparr>)))
      | Event t \<Rightarrow> (ReturnedUndefined, executeChange P (InputEvent t) [] c))"

definition executeBlur :: "config \<Rightarrow> eventOrValue \<Rightarrow> string \<Rightarrow> formik \<Rightarrow> formik" where
  "executeBlur P maybeEvent maybePath c =
     (let field =
            (case maybeEvent of
               InputEvent t \<Rightarrow> (if name_t t \<noteq> [] then name_t t else id_t t)
             | Value x \<Rightarrow> maybePath);
          c1 = setState (\<lambda>s. s\<lparr>touched := setIn (touched s) field (Bool True)\<rparr>) c
      in if validateOnBlur P
         then runValidations P (values_s (state c1)) ByRunValidations c1
         else c1)"

definition handleBlur ::
    "config \<Rightarrow> eventOrPath \<Rightarrow> formik \<Rightarrow> handlerResult \<times> formik" where
  "handleBlur P e c =
     (case e of
        Path p \<Rightarrow>
          (case cacheGet (hbCache c) p of
             TypeErrorThrown \<Rightarrow> (Threw, c)
           | Function f \<Rightarrow> (resultOf (cacheGet (hbCache c) p), c)
           | NotAFunction \<Rightarrow>
               (case cachePut (hbCache c) p (nextId c) of
                  None \<Rightarrow> (Threw, c)
                | Some cache \<Rightarrow>
                    (resultOf (cacheGet cache p),
                     c\<lparr>hbCache := cache,
                       closures := (closures c)(nextId c \<mapsto> BlurHandler p),
                       nextId := Suc (nextId c)\<rparr>)))
      | Event t \<Rightarrow> (ReturnedUndefined, executeBlur P (InputEvent t) [] c))"

text \<open>Calling a closure that \<^verbatim>\<open>handleChange\<close> or \<^verbatim>\<open>handleBlur\<close> made.\<close>

definition callHandler :: "config \<Rightarrow> nat \<Rightarrow> eventOrValue \<Rightarrow> formik \<Rightarrow> formik" where
  "callHandler P h arg c =
     (case closures c h of
        Some (ChangeHandler p) \<Rightarrow> executeChange P arg p c
      | Some (BlurHandler p) \<Rightarrow> executeBlur P arg p c
      | None \<Rightarrow> c)"

subsection \<open>Traces\<close>

text \<open>
  Everything that can happen to a controller: a call of one of its methods, or the
  settling of a pending promise. \<^verbatim>\<open>handleSubmit\<close> is \<open>SubmitForm\<close> (it adds
  \<^verbatim>\<open>preventDefault\<close> and a development warning); \<^verbatim>\<open>setFormikState\<close> is taken
  without its optional callback.
\<close>

datatype event =
    RegisterField string field
  | UnregisterField string
  | ComponentDidMount
  | ComponentWillUnmount
  | SetErrors jsval
  | SetTouched jsval
  | SetValues jsval
  | SetStatus jsval
  | SetError jsval
  | SetSubmitting bool
  | SetFieldValue string jsval bool
  | SetFieldTouched string bool bool
  | SetFieldError string jsval
  | SetFormikState "fstate \<Rightarrow> fstate"
  | ValidateField string
  | ValidateForm jsval
  | SubmitForm
  | ResetForm jsval
  | HandleReset
  | HandleChange eventOrPath
  | HandleBlur eventOrPath
  | CallHandler nat eventOrValue
  | Settle nat

definition settle :: "config \<Rightarrow> nat \<Rightarrow> formik \<Rightarrow> formik" where
  "settle P i c =
     (case tasks c i of
        None \<Rightarrow> c
      | Some t \<Rightarrow>
          (let c0 = c\<lparr>tasks := (tasks c)(i := None)\<rparr>
           in case t of
                ValidationRun k r \<Rightarrow> settleRun P i k r c0
              | FieldValidation field r \<Rightarrow> settleField i field r c0
              | ResetPromise r \<Rightarrow> settleReset P r c0))"

fun step :: "config \<Rightarrow> event \<Rightarrow> formik \<Rightarrow> formik" where
  "step P (RegisterField name component) c = registerField name component c"
| "step P (UnregisterField name) c = unregisterField name c"
| "step P ComponentDidMount c = componentDidMount c"
| "step P ComponentWillUnmount c = componentWillUnmount c"
| "step P (SetErrors e) c = setErrors e c"
| "step P (SetTouched t) c = setTouched P t c"
| "step P (SetValues v) c = setValues P v c"
| "step P (SetStatus v) c = setStatus v c"
| "step P (SetError v) c = setError v c"
| "step P (SetSubmitting b) c = setSubmitting b c"
| "step P (SetFieldValue f v b) c = setFieldValue P f v b c"
| "step P (SetFieldTouched f t b) c = setFieldTouched P f t b c"
| "step P (SetFieldError f m) c = setFieldError f m c"
| "step P (SetFormikState f) c = setFormikState f c"
| "step P (ValidateField f) c = validateField f c"
| "step P (ValidateForm v) c = validateForm P v c"
| "step P SubmitForm c = submitForm P c"
| "step P (ResetForm v) c = resetForm P v c"
| "step P HandleReset c = handleReset P c"
| "step P (HandleChange e) c = snd (handleChange P e c)"
| "step P (HandleBlur e) c = snd (handleBlur P e c)"
| "step P (CallHandler h arg) c = callHandler P h arg c"
| "step P (Settle i) c = settle P i c"

definition exec :: "config \<Rightarrow> event list \<Rightarrow> formik \<Rightarrow> formik" where
  "exec P es c = foldl (\<lambda>c e. step P e c) c es"

section \<open>Invariants of the event loop\<close>

text \<open>
  Task, handle and function-object numbers are allocated from \<open>nextId\<close>: whatever is
  pending, stored as the validator or held in \<open>closures\<close> lies below it.
\<close>

definition idsOk :: "formik \<Rightarrow> bool" where
  "idsOk c = ((\<forall>i. tasks c i \<noteq> None \<longrightarrow> i < nextId c) \<and>
              (\<forall>i. validator c = Some i \<longrightarrow> i < nextId c) \<and>
              (\<forall>h. closures c h \<noteq> None \<longrightarrow> h < nextId c))"

text \<open>
  At most one whole-form run is authoritative: every pending run but the one whose
  handle is stored in \<open>validator\<close> has been canceled.
\<close>

definition singleFlight :: "formik \<Rightarrow> bool" where
  "singleFlight c =
     (\<forall>i k r. tasks c i = Some (ValidationRun k r) \<longrightarrow> hasCanceled c i \<or> validator c = Some i)"

text \<open>A run that has been canceled; its task, if still pending, is a whole-form run.\<close>

definition stale :: "nat \<Rightarrow> formik \<Rightarrow> bool" where
  "stale a c = (a < nextId c \<and> hasCanceled c a \<and>
                (\<forall>t. tasks c a = Some t \<longrightarrow> (\<exists>k r. t = ValidationRun k r)))"

text \<open>Every change handler stored in the cache is a closure over the path it is stored under.\<close>

definition cacheOk :: "formik \<Rightarrow> bool" where
  "cacheOk c =
     (\<forall>p h. own (hcCache c) p = Some h \<longrightarrow> closures c h = Some (ChangeHandler p))"

text \<open>
  The names a cache can inherit a property under: those of \<^verbatim>\<open>Object.prototype\<close>, and
  those of a function and of \<^verbatim>\<open>Function.prototype\<close>.
\<close>

definition inheritedName :: "string \<Rightarrow> bool" where
  "inheritedName p =
     (p = ''__proto__'' \<or> p = ''constructor'' \<or> p \<in> set objectPrototypeMethods \<or>
      p \<in> set functionPrototypeMethods \<or>
      p = ''length'' \<or> p = ''name'' \<or> p = ''arguments'' \<or> p = ''caller'')"

section \<open>Descriptions from the spec\<close>

subsection \<open>The field-level source as the spec words it\<close>

text \<open>
  The spec (4.3): every registered field that declares a validation function is
  invoked with the field's current value; what it returns, resolves to, throws or
  rejects with is the result for that field; the results are collected with \<^verbatim>\<open>set\<close>
  under each field's path, a falsy result contributes nothing and the sentinel is not
  written. \<open>fieldErrorsSpec\<close> is this description; the theorem for the field-level
  source compares it with \<open>runFieldLevelValidations\<close>, which is the code.
\<close>

definition fieldResult :: "validate \<Rightarrow> jsval \<Rightarrow> jsval" where
  "fieldResult validate v =
     (case validate v of
        Return (Plain x) \<Rightarrow> x
      | Return (Promise (Fulfilled x)) \<Rightarrow> x
      | Return (Promise (Rejected e)) \<Rightarrow> e
      | Throw e \<Rightarrow> e)"

definition contribute :: "jsval \<Rightarrow> string \<times> jsval \<Rightarrow> jsval" where
  "contribute t fr =
     (if truthy (snd fr) \<and> snd fr \<noteq> Str sentinel then setIn t (fst fr) (snd fr) else t)"

definition validatedFields :: "(string \<times> field) list \<Rightarrow> jsval \<Rightarrow> (string \<times> jsval) list" where
  "validatedFields flds vals =
     concat (map (\<lambda>(f, fld). case fld of
                    Some validate \<Rightarrow> [(f, fieldResult validate (getIn vals f))]
                  | None \<Rightarrow> []) flds)"

definition fieldErrorsSpec :: "(string \<times> field) list \<Rightarrow> jsval \<Rightarrow> jsval" where
  "fieldErrorsSpec flds vals = foldl contribute emptyObj (validatedFields flds vals)"

text \<open>The value a single field validation resolves with.\<close>

definition singleValue :: "(string \<times> field) list \<Rightarrow> jsval \<Rightarrow> string \<Rightarrow> jsval" where
  "singleValue flds vals f =
     (case runSingleFieldLevelValidation flds f (getIn vals f) of
        Fulfilled x \<Rightarrow> x | Rejected e \<Rightarrow> e)"

section \<open>Concrete inputs\<close>

definition returnsErrorsObject :: validate where
  "returnsErrorsObject v = Return (Plain (Obj (fmap_of_list [(''a'', Str ''x'')])))"


definition twiceNested :: yupError where
  "twiceNested =
     \<lparr>path = [], message = ''2 errors occurred'',
      inner = [(''a.b'', ''first''), (''a.b'', ''second'')]\<rparr>"

definition twiceFlat :: yupError where
  "twiceFlat =
     \<lparr>path = [], message = ''2 errors occurred'',
      inner = [(''a'', ''first''), (''a'', ''second'')]\<rparr>"

definition throwsBad :: validate where
  "throwsBad v = Throw (Str ''bad'')"

definition rejectsTaken :: validate where
  "rejectsTaken v = Return (Promise (Rejected (Str ''taken'')))"

definition returnsNothing :: validate where
  "returnsNothing v = Return (Plain Undefined)"

definition threeFields :: "(string \<times> field) list" where
  "threeFields =
     [(''email'', Some throwsBad), (''name'', Some returnsNothing),
      (''user.login'', Some rejectsTaken), (''age'', None)]"

text \<open>
  A login form. \<open>flatMerge\<close> instantiates the merge parameter: the union of the
  top-level keys, later trees winning, which is what a deep merge gives on trees
  that share no key.
\<close>

definition flatMerge :: "jsval list \<Rightarrow> jsval" where
  "flatMerge ts =
     foldl (\<lambda>a b. case (a, b) of (Obj m, Obj n) \<Rightarrow> Obj (m ++\<^sub>f n) | _ \<Rightarrow> b) emptyObj ts"

definition requiresEmail :: validate where
  "requiresEmail v = Return (Plain (Str ''Required''))"

definition blankEmail :: jsval where
  "blankEmail = Obj (fmap_of_list [(''email'', Str [])])"

definition newEmail :: jsval where
  "newEmail = Obj (fmap_of_list [(''email'', Str ''new@example.org'')])"

definition acceptsAll :: schema where
  "acceptsAll v = YupValid v"

definition sends :: "jsval \<Rightarrow> call" where
  "sends v = Return (Promise (Fulfilled (Str ''sent'')))"

definition resetsLater :: "jsval \<Rightarrow> call" where
  "resetsLater v = Return (Promise (Fulfilled newEmail))"

definition emailForm :: config where
  "emailForm =
     \<lparr>validateOnChange = True, validateOnBlur = True,
      initialValues_p = blankEmail, initialStatus = Undefined,
      validate_p = None, validationSchema = Some acceptsAll,
      onSubmit = sends, onReset = Some resetsLater,
      deepmergeAll = flatMerge\<rparr>"

definition mounted :: formik where
  "mounted = exec emailForm [ComponentDidMount] (init emailForm)"

definition mountedWithField :: formik where
  "mountedWithField =
     exec emailForm [ComponentDidMount, RegisterField ''email'' (Some requiresEmail)]
       (init emailForm)"

definition validating :: formik where
  "validating =
     exec emailForm
       [ComponentDidMount, RegisterField ''email'' (Some requiresEmail), ValidateForm blankEmail]
       (init emailForm)"

definition superseded :: formik where
  "superseded = runValidations emailForm blankEmail ByRunValidations validating"

definition tornDownResetting :: formik where
  "tornDownResetting =
     exec emailForm [ComponentDidMount, HandleReset, ComponentWillUnmount] (init emailForm)"

definition tornDownValidating :: formik where
  "tornDownValidating =
     componentWillUnmount (exec emailForm
       [ComponentDidMount, RegisterField ''email'' (Some requiresEmail),
        ValidateField ''email'', SubmitForm] (init emailForm))"

section \<open>Path addressing and the field-level source: lemmas\<close>


lemma single_result:
  "map_of flds f = Some (Some validate) \<Longrightarrow>
   runSingleFieldLevelValidation flds f v = Fulfilled (fieldResult validate v)"
  by (simp add: runSingleFieldLevelValidation_def callValidate_def promiseOfCall_def
      thenBoth_def fieldResult_def split: call.splits ret.splits settled.splits)

lemma single_never_rejects: "\<exists>x. runSingleFieldLevelValidation flds f v = Fulfilled x"
  by (simp add: runSingleFieldLevelValidation_def thenBoth_def split: settled.splits)

lemma single_value:
  "runSingleFieldLevelValidation flds f (getIn vals f) = Fulfilled (singleValue flds vals f)"
  using single_never_rejects[of flds f "getIn vals f"] by (auto simp: singleValue_def)

lemma promiseAll_fulfilled:
  "promiseAll (map (\<lambda>f. Fulfilled (g f)) ks) = Fulfilled (Arr (map g ks))"
  by (induction ks) auto

lemma contribute_pair:
  "contribute t (f, r) = (if truthy r \<and> r \<noteq> Str sentinel then setIn t f r else t)"
  by (simp add: contribute_def)

lemma reduce_foldl:
  "reduceFieldErrors (ks1 @ ks2) prev (map g ks2) (length ks1) =
   foldl contribute prev (map (\<lambda>f. (f, g f)) ks2)"
proof (induction ks2 arbitrary: ks1 prev)
  case Nil
  then show ?case by simp
next
  case (Cons k ks2)
  have step: "\<And>p. reduceFieldErrors (ks1 @ k # ks2) p (map g ks2) (Suc (length ks1)) =
     foldl contribute p (map (\<lambda>f. (f, g f)) ks2)"
    using Cons.IH[of "ks1 @ [k]"] by simp
  show ?case by (simp add: step contribute_pair nth_append)
qed

lemma map_filter_concat:
  "(\<And>x. x \<in> set xs \<Longrightarrow> k x = (if P x then [h x] else [])) \<Longrightarrow>
   map h (filter P xs) = concat (map k xs)"
  by (induction xs) simp_all

lemma keys_entries:
  assumes "distinct (map fst flds)"
  shows "map (\<lambda>f. (f, singleValue flds vals f)) (fieldKeysWithValidation flds) =
         validatedFields flds vals"
proof -
  have look: "\<And>f fld. (f, fld) \<in> set flds \<Longrightarrow> map_of flds f = Some fld"
    using assms by simp
  have "fieldKeysWithValidation flds =
        map fst (filter (\<lambda>x. case map_of flds (fst x) of
                                Some (Some validate) \<Rightarrow> True | _ \<Rightarrow> False) flds)"
    by (simp add: fieldKeysWithValidation_def filter_map comp_def)
  then have "map (\<lambda>f. (f, singleValue flds vals f)) (fieldKeysWithValidation flds) =
        map (\<lambda>x. (fst x, singleValue flds vals (fst x)))
          (filter (\<lambda>x. case map_of flds (fst x) of
                          Some (Some validate) \<Rightarrow> True | _ \<Rightarrow> False) flds)"
    by (simp add: comp_def)
  also have "\<dots> = validatedFields flds vals"
    unfolding validatedFields_def
  proof (rule map_filter_concat)
    fix x assume x: "x \<in> set flds"
    obtain f fld where xf: "x = (f, fld)" by (cases x)
    have m: "map_of flds f = Some fld" using look x xf by simp
    show "(case x of (f, fld) \<Rightarrow> (case fld of
              Some validate \<Rightarrow> [(f, fieldResult validate (getIn vals f))] | None \<Rightarrow> [])) =
          (if (case map_of flds (fst x) of Some (Some validate) \<Rightarrow> True | _ \<Rightarrow> False)
           then [(fst x, singleValue flds vals (fst x))] else [])"
      using m by (cases fld) (simp_all add: xf singleValue_def single_result)
  qed
  finally show ?thesis .
qed

lemma run_fields_foldl:
  "runFieldLevelValidations flds vals =
   Fulfilled (foldl contribute emptyObj
     (map (\<lambda>f. (f, singleValue flds vals f)) (fieldKeysWithValidation flds)))"
proof (cases "fieldKeysWithValidation flds = []")
  case True
  then show ?thesis by (simp add: runFieldLevelValidations_def)
next
  case False
  have eq: "(\<lambda>f. runSingleFieldLevelValidation flds f (getIn vals f)) =
      (\<lambda>f. Fulfilled (singleValue flds vals f))"
    by (simp add: single_value)
  show ?thesis
    using False
      reduce_foldl[of "[]" "fieldKeysWithValidation flds" emptyObj "singleValue flds vals"]
    by (simp add: runFieldLevelValidations_def Let_def eq promiseAll_fulfilled)
qed

lemma run_fields_spec:
  "distinct (map fst flds) \<Longrightarrow>
   runFieldLevelValidations flds vals = Fulfilled (fieldErrorsSpec flds vals)"
  using keys_entries[of flds vals] by (simp add: run_fields_foldl fieldErrorsSpec_def)

lemma validatedFields_append:
  "validatedFields (xs @ ys) vals = validatedFields xs vals @ validatedFields ys vals"
  by (simp add: validatedFields_def)

lemma validatedFields_none:
  "(\<forall>x\<in>set flds. snd x = None) \<Longrightarrow> validatedFields flds vals = []"
  by (induction flds) (auto simp: validatedFields_def)

section \<open>The handler-level source\<close>

text \<open>
  C2, as the claim states it, fails: a handler-level \<^verbatim>\<open>validate\<close> that returns the
  object \<^verbatim>\<open>{a: 'x'}\<close> synchronously has that object resolved as its error tree
  (the last branch of \<^verbatim>\<open>runValidateHandler\<close>), not the empty tree.
\<close>

theorem C2_counterexample:
  "runValidateHandler returnsErrorsObject emptyObj =
     Fulfilled (Obj (fmap_of_list [(''a'', Str ''x'')])) \<and>
   runValidateHandler returnsErrorsObject emptyObj \<noteq> Fulfilled emptyObj"
  by (simp add: runValidateHandler_def returnsErrorsObject_def isPromise_def emptyObj_def)

text \<open>
  C2, amended: \<^verbatim>\<open>runValidateHandler\<close> resolves with the empty tree when the handler
  returns undefined or a promise that fulfils, with the returned value itself when the
  handler returns any other value synchronously, and with the rejection value when the
  returned promise rejects; a handler that throws rejects the source's promise.
\<close>

theorem C2_handler_source:
  "runValidateHandler validate vals =
     (case validate vals of
        Return (Plain v) \<Rightarrow> Fulfilled (if v = Undefined then emptyObj else v)
      | Return (Promise (Fulfilled v)) \<Rightarrow> Fulfilled emptyObj
      | Return (Promise (Rejected e)) \<Rightarrow> Fulfilled e
      | Throw e \<Rightarrow> Rejected e)"
  by (simp add: runValidateHandler_def isPromise_def
      split: call.splits ret.splits settled.splits)

section \<open>The schema-level source\<close>




text \<open>
  C6: the claim's "first message per path wins" fails in the code for a nested path.
  \<^verbatim>\<open>yupToFormErrors\<close> tests \<^verbatim>\<open>errors[err.path]\<close>, a property read under the whole
  path string, while \<^verbatim>\<open>setIn\<close> writes under the path's segments: after the first
  entry for \<^verbatim>\<open>a.b\<close> the tree has no property named \<^verbatim>\<open>a.b\<close>, and the second entry
  for the same path overwrites the first message. For the flat path \<^verbatim>\<open>a\<close> the same
  guard does keep the first message.
\<close>

theorem C6_nested_path_last_wins:
  "yupToFormErrors twiceNested =
     Obj (fmap_of_list [(''a'', Obj (fmap_of_list [(''b'', Str ''second'')]))]) \<and>
   getIn (yupToFormErrors twiceNested) ''a.b'' = Str ''second'' \<and>
   yupToFormErrors twiceFlat = Obj (fmap_of_list [(''a'', Str ''first'')])"
  by code_simp

section \<open>The field-level source\<close>

text \<open>
  C7: for a registry with distinct field names, \<^verbatim>\<open>runFieldLevelValidations\<close> always
  fulfils, with the tree the spec describes (\<open>fieldErrorsSpec\<close>: each validated
  field's result written under its path unless it is falsy or the sentinel); a single
  field validation fulfils with what the validator returned, resolved to, threw or
  rejected with, so a failing validator neither re-throws nor stops its siblings; a
  field whose result is falsy leaves the tree as if it had no validator; and with no
  validator anywhere the tree is empty, the sentinel is not written.
\<close>

theorem C7_field_level_source:
  assumes "distinct (map fst flds)"
  shows "runFieldLevelValidations flds vals = Fulfilled (fieldErrorsSpec flds vals) \<and>
    (\<forall>f validate v. map_of flds f = Some (Some validate) \<longrightarrow>
       runSingleFieldLevelValidation flds f v = Fulfilled (fieldResult validate v)) \<and>
    (\<forall>xs ys f validate. flds = xs @ (f, Some validate) # ys \<longrightarrow>
       \<not> truthy (fieldResult validate (getIn vals f)) \<longrightarrow>
       runFieldLevelValidations flds vals = runFieldLevelValidations (xs @ (f, None) # ys) vals) \<and>
    ((\<forall>x\<in>set flds. snd x = None) \<longrightarrow> runFieldLevelValidations flds vals = Fulfilled emptyObj)"
proof (intro conjI allI impI)
  show "runFieldLevelValidations flds vals = Fulfilled (fieldErrorsSpec flds vals)"
    using assms by (rule run_fields_spec)
next
  fix f validate v
  assume "map_of flds f = Some (Some validate)"
  then show "runSingleFieldLevelValidation flds f v = Fulfilled (fieldResult validate v)"
    by (rule single_result)
next
  fix xs ys f validate
  assume eq: "flds = xs @ (f, Some validate) # ys"
    and falsy: "\<not> truthy (fieldResult validate (getIn vals f))"
  have d: "distinct (map fst (xs @ (f, None) # ys))" using assms eq by simp
  have "fieldErrorsSpec flds vals = fieldErrorsSpec (xs @ (f, None) # ys) vals"
    using falsy
    by (simp add: eq fieldErrorsSpec_def validatedFields_append contribute_pair)
       (simp add: validatedFields_def contribute_pair)
  then show "runFieldLevelValidations flds vals =
             runFieldLevelValidations (xs @ (f, None) # ys) vals"
    using run_fields_spec[OF assms, of vals] run_fields_spec[OF d, of vals] by simp
next
  assume "\<forall>x\<in>set flds. snd x = None"
  then show "runFieldLevelValidations flds vals = Fulfilled emptyObj"
    using run_fields_spec[OF assms, of vals]
    by (simp add: fieldErrorsSpec_def validatedFields_none)
qed

theorem C7_witness:
  "distinct (map fst threeFields) \<and>
   runFieldLevelValidations threeFields emptyObj =
     Fulfilled (Obj (fmap_of_list
       [(''email'', Str ''bad''), (''user'', Obj (fmap_of_list [(''login'', Str ''taken'')]))])) \<and>
   runSingleFieldLevelValidation threeFields ''email'' Undefined = Fulfilled (Str ''bad'') \<and>
   runFieldLevelValidations threeFields emptyObj =
     runFieldLevelValidations
       [(''email'', Some throwsBad), (''name'', None),
        (''user.login'', Some rejectsTaken), (''age'', None)] emptyObj \<and>
   runFieldLevelValidations [(''age'', None)] emptyObj = Fulfilled emptyObj"
proof -
  have d: "distinct (map fst threeFields)" by (simp add: threeFields_def)
  have d1: "distinct (map fst [(''age'', None :: field)])" by simp
  note T = C7_field_level_source[OF d, of emptyObj]
  note T1 = C7_field_level_source[OF d1, of emptyObj]
  have spec: "fieldErrorsSpec threeFields emptyObj =
      Obj (fmap_of_list
       [(''email'', Str ''bad''), (''user'', Obj (fmap_of_list [(''login'', Str ''taken'')]))])"
    by code_simp
  have a: "runFieldLevelValidations threeFields emptyObj =
     Fulfilled (Obj (fmap_of_list
       [(''email'', Str ''bad''), (''user'', Obj (fmap_of_list [(''login'', Str ''taken'')]))]))"
    using T[THEN conjunct1] by (simp only: spec)
  have m: "map_of threeFields ''email'' = Some (Some throwsBad)"
    by (simp add: threeFields_def)
  have b: "runSingleFieldLevelValidation threeFields ''email'' Undefined = Fulfilled (Str ''bad'')"
    using T[THEN conjunct2, THEN conjunct1, rule_format, OF m, of Undefined]
    by (simp add: fieldResult_def throwsBad_def)
  have split: "threeFields = [(''email'', Some throwsBad)] @ (''name'', Some returnsNothing) #
      [(''user.login'', Some rejectsTaken), (''age'', None)]"
    by (simp add: threeFields_def)
  have falsy: "\<not> truthy (fieldResult returnsNothing (getIn emptyObj ''name''))"
    by (simp add: fieldResult_def returnsNothing_def)
  have c: "runFieldLevelValidations threeFields emptyObj =
     runFieldLevelValidations
       [(''email'', Some throwsBad), (''name'', None),
        (''user.login'', Some rejectsTaken), (''age'', None)] emptyObj"
    using T[THEN conjunct2, THEN conjunct2, THEN conjunct1, rule_format, OF split falsy]
    by simp
  have none: "\<forall>x\<in>set [(''age'', None :: field)]. snd x = None" by simp
  have e: "runFieldLevelValidations [(''age'', None)] emptyObj = Fulfilled emptyObj"
    using T1[THEN conjunct2, THEN conjunct2, THEN conjunct2] none by blast
  show ?thesis using d a b c e by blast
qed

section \<open>The controller: what each operation leaves unchanged\<close>

lemma setState_fields [simp]:
  "state (setState f c) = f (state c)"
  "initialValues (setState f c) = initialValues c"
  "didMount (setState f c) = didMount c"
  "hcCache (setState f c) = hcCache c"
  "hbCache (setState f c) = hbCache c"
  "fields_r (setState f c) = fields_r c"
  "closures (setState f c) = closures c"
  "submitted (setState f c) = submitted c"
  "returned (setState f c) = returned c"
  "nextId (setState f c) = nextId c"
  "validator (setState f c) = validator c"
  "tasks (setState f c) = tasks c"
  "hasCanceled (setState f c) = hasCanceled c"
  by (simp_all add: setState_def)

lemma cancel_fields [simp]:
  "state (cancel i c) = state c"
  "initialValues (cancel i c) = initialValues c"
  "didMount (cancel i c) = didMount c"
  "hcCache (cancel i c) = hcCache c"
  "hbCache (cancel i c) = hbCache c"
  "fields_r (cancel i c) = fields_r c"
  "closures (cancel i c) = closures c"
  "submitted (cancel i c) = submitted c"
  "returned (cancel i c) = returned c"
  "nextId (cancel i c) = nextId c"
  "validator (cancel i c) = validator c"
  "tasks (cancel i c) = tasks c"
  "hasCanceled (cancel i c) j = (j = i \<or> hasCanceled c j)"
  by (simp_all add: cancel_def)

lemma runValidations_fields [simp]:
  "state (runValidations P vals k c) = state c"
  "initialValues (runValidations P vals k c) = initialValues c"
  "didMount (runValidations P vals k c) = didMount c"
  "hcCache (runValidations P vals k c) = hcCache c"
  "hbCache (runValidations P vals k c) = hbCache c"
  "fields_r (runValidations P vals k c) = fields_r c"
  "closures (runValidations P vals k c) = closures c"
  "submitted (runValidations P vals k c) = submitted c"
  "returned (runValidations P vals k c) = returned c"
  "nextId (runValidations P vals k c) = Suc (nextId c)"
  "validator (runValidations P vals k c) = Some (nextId c)"
  "tasks (runValidations P vals k c) =
     (tasks c)(nextId c \<mapsto> ValidationRun k (pipeline P (fields_r c) vals))"
  "hasCanceled (runValidations P vals k c) j =
     (j \<noteq> nextId c \<and> (hasCanceled c j \<or> validator c = Some j))"
  by (auto simp: runValidations_def makeCancelable_def cancel_def Let_def split: option.splits)

lemma afterRun_fields [simp]:
  "initialValues (fst (afterRun r c)) = initialValues c"
  "didMount (fst (afterRun r c)) = didMount c"
  "hcCache (fst (afterRun r c)) = hcCache c"
  "hbCache (fst (afterRun r c)) = hbCache c"
  "fields_r (fst (afterRun r c)) = fields_r c"
  "closures (fst (afterRun r c)) = closures c"
  "submitted (fst (afterRun r c)) = submitted c"
  "returned (fst (afterRun r c)) = returned c"
  "nextId (fst (afterRun r c)) = nextId c"
  "validator (fst (afterRun r c)) = validator c"
  "tasks (fst (afterRun r c)) = tasks c"
  "hasCanceled (fst (afterRun r c)) = hasCanceled c"
  by (simp_all add: afterRun_def split: settled.splits)

lemma afterRun_state:
  "state (fst (afterRun r c)) =
     (case r of Fulfilled errs \<Rightarrow> (if didMount c then (state c)\<lparr>errors := errs\<rparr> else state c)
              | Rejected x \<Rightarrow> state c)"
  "snd (afterRun r c) = (case r of Fulfilled errs \<Rightarrow> errs | Rejected x \<Rightarrow> x)"
  by (simp_all add: afterRun_def commitErrors_def isEqual_def split: settled.splits)

lemma afterValidateForm_fields [simp]:
  "initialValues (fst (afterValidateForm e c)) = initialValues c"
  "didMount (fst (afterValidateForm e c)) = didMount c"
  "hcCache (fst (afterValidateForm e c)) = hcCache c"
  "hbCache (fst (afterValidateForm e c)) = hbCache c"
  "fields_r (fst (afterValidateForm e c)) = fields_r c"
  "closures (fst (afterValidateForm e c)) = closures c"
  "submitted (fst (afterValidateForm e c)) = submitted c"
  "returned (fst (afterValidateForm e c)) = returned c"
  "nextId (fst (afterValidateForm e c)) = nextId c"
  "validator (fst (afterValidateForm e c)) = validator c"
  "tasks (fst (afterValidateForm e c)) = tasks c"
  "hasCanceled (fst (afterValidateForm e c)) = hasCanceled c"
  by (simp_all add: afterValidateForm_def)

lemma afterSubmitValidation_fields [simp]:
  "initialValues (fst (afterSubmitValidation P e c)) = initialValues c"
  "didMount (fst (afterSubmitValidation P e c)) = didMount c"
  "hcCache (fst (afterSubmitValidation P e c)) = hcCache c"
  "hbCache (fst (afterSubmitValidation P e c)) = hbCache c"
  "fields_r (fst (afterSubmitValidation P e c)) = fields_r c"
  "closures (fst (afterSubmitValidation P e c)) = closures c"
  "returned (fst (afterSubmitValidation P e c)) = returned c"
  "nextId (fst (afterSubmitValidation P e c)) = nextId c"
  "validator (fst (afterSubmitValidation P e c)) = validator c"
  "tasks (fst (afterSubmitValidation P e c)) = tasks c"
  "hasCanceled (fst (afterSubmitValidation P e c)) = hasCanceled c"
  by (simp_all add: afterSubmitValidation_def executeSubmit_def Let_def split: option.splits)

lemma settleRun_fields [simp]:
  "initialValues (settleRun P i k r c) = initialValues c"
  "didMount (settleRun P i k r c) = didMount c"
  "hcCache (settleRun P i k r c) = hcCache c"
  "hbCache (settleRun P i k r c) = hbCache c"
  "fields_r (settleRun P i k r c) = fields_r c"
  "closures (settleRun P i k r c) = closures c"
  "nextId (settleRun P i k r c) = nextId c"
  "validator (settleRun P i k r c) = validator c"
  "tasks (settleRun P i k r c) = tasks c"
  "hasCanceled (settleRun P i k r c) = hasCanceled c"
  by (simp_all add: settleRun_def Let_def split_beta split: option.splits caller.splits)

lemma settleField_fields [simp]:
  "initialValues (settleField i f r c) = initialValues c"
  "didMount (settleField i f r c) = didMount c"
  "hcCache (settleField i f r c) = hcCache c"
  "hbCache (settleField i f r c) = hbCache c"
  "fields_r (settleField i f r c) = fields_r c"
  "closures (settleField i f r c) = closures c"
  "submitted (settleField i f r c) = submitted c"
  "nextId (settleField i f r c) = nextId c"
  "validator (settleField i f r c) = validator c"
  "tasks (settleField i f r c) = tasks c"
  "hasCanceled (settleField i f r c) = hasCanceled c"
  by (simp_all add: settleField_def Let_def split: settled.splits)

lemma resetForm_fields [simp]:
  "didMount (resetForm P v c) = didMount c"
  "hcCache (resetForm P v c) = hcCache c"
  "hbCache (resetForm P v c) = hbCache c"
  "fields_r (resetForm P v c) = fields_r c"
  "closures (resetForm P v c) = closures c"
  "submitted (resetForm P v c) = submitted c"
  "returned (resetForm P v c) = returned c"
  "nextId (resetForm P v c) = nextId c"
  "validator (resetForm P v c) = validator c"
  "tasks (resetForm P v c) = tasks c"
  "hasCanceled (resetForm P v c) = hasCanceled c"
  by (simp_all add: resetForm_def Let_def)

lemma settleReset_fields [simp]:
  "didMount (settleReset P r c) = didMount c"
  "hcCache (settleReset P r c) = hcCache c"
  "hbCache (settleReset P r c) = hbCache c"
  "fields_r (settleReset P r c) = fields_r c"
  "closures (settleReset P r c) = closures c"
  "submitted (settleReset P r c) = submitted c"
  "returned (settleReset P r c) = returned c"
  "nextId (settleReset P r c) = nextId c"
  "validator (settleReset P r c) = validator c"
  "tasks (settleReset P r c) = tasks c"
  "hasCanceled (settleReset P r c) = hasCanceled c"
  by (simp_all add: settleReset_def split: settled.splits)

lemma settle_fields [simp]:
  "didMount (settle P i c) = didMount c"
  "hcCache (settle P i c) = hcCache c"
  "hbCache (settle P i c) = hbCache c"
  "fields_r (settle P i c) = fields_r c"
  "closures (settle P i c) = closures c"
  "nextId (settle P i c) = nextId c"
  "validator (settle P i c) = validator c"
  "hasCanceled (settle P i c) = hasCanceled c"
  by (simp_all add: settle_def Let_def split: option.splits task.splits)

lemma settle_tasks [simp]: "tasks (settle P i c) = (tasks c)(i := None)"
  by (auto simp: settle_def Let_def split: option.splits task.splits)

lemma executeChange_fields [simp]:
  "initialValues (executeChange P ev p c) = initialValues c"
  "didMount (executeChange P ev p c) = didMount c"
  "hcCache (executeChange P ev p c) = hcCache c"
  "hbCache (executeChange P ev p c) = hbCache c"
  "fields_r (executeChange P ev p c) = fields_r c"
  "closures (executeChange P ev p c) = closures c"
  "submitted (executeChange P ev p c) = submitted c"
  "returned (executeChange P ev p c) = returned c"
  by (simp_all add: executeChange_def Let_def split_beta split: eventOrValue.splits)

lemma executeBlur_fields [simp]:
  "initialValues (executeBlur P ev p c) = initialValues c"
  "didMount (executeBlur P ev p c) = didMount c"
  "hcCache (executeBlur P ev p c) = hcCache c"
  "hbCache (executeBlur P ev p c) = hbCache c"
  "fields_r (executeBlur P ev p c) = fields_r c"
  "closures (executeBlur P ev p c) = closures c"
  "submitted (executeBlur P ev p c) = submitted c"
  "returned (executeBlur P ev p c) = returned c"
  by (simp_all add: executeBlur_def Let_def split: eventOrValue.splits)

section \<open>The controller: invariants along a trace\<close>

lemmas op_defs = registerField_def unregisterField_def componentDidMount_def
  componentWillUnmount_def setErrors_def setTouched_def setValues_def setStatus_def
  setError_def setSubmitting_def setFieldValue_def setFieldTouched_def setFieldError_def
  setFormikState_def validateField_def validateForm_def submitForm_def handleReset_def
  handleChange_def handleBlur_def callHandler_def

lemma step_didMount:
  "e \<noteq> ComponentDidMount \<Longrightarrow> \<not> didMount c \<Longrightarrow> \<not> didMount (step P e c)"
  by (cases e)
     (simp_all add: op_defs Let_def
        split: option.splits call.splits ret.splits eventOrPath.splits closure.splits
          lookup.splits)

lemma step_nextId: "nextId c \<le> nextId (step P e c)"
  by (cases e) (simp_all add: op_defs executeChange_def executeBlur_def Let_def split_beta
      split: option.splits call.splits ret.splits eventOrPath.splits closure.splits
        eventOrValue.splits lookup.splits)

lemmas step_splits = option.splits call.splits ret.splits eventOrPath.splits closure.splits
  eventOrValue.splits lookup.splits

lemma idsOk_init: "idsOk (init P)"
  by (simp add: idsOk_def init_def)

lemma idsOk_step: "idsOk c \<Longrightarrow> idsOk (step P e c)"
  unfolding idsOk_def
  by (cases e)
     (auto simp: op_defs executeChange_def executeBlur_def Let_def split_beta less_Suc_eq
      split: step_splits if_splits)

lemma singleFlight_init: "singleFlight (init P)"
  by (simp add: singleFlight_def init_def)

lemma singleFlight_step: "idsOk c \<Longrightarrow> singleFlight c \<Longrightarrow> singleFlight (step P e c)"
  unfolding idsOk_def singleFlight_def
  by (cases e;
      (auto simp: op_defs executeChange_def executeBlur_def Let_def split_beta
         split: step_splits if_splits)?; blast)

lemma stale_step: "stale a c \<Longrightarrow> stale a (step P e c)"
  unfolding stale_def
  by (cases e)
     (auto simp: op_defs executeChange_def executeBlur_def Let_def split_beta less_Suc_eq
      split: step_splits if_splits)

lemma exec_Nil [simp]: "exec P [] c = c"
  by (simp add: exec_def)

lemma exec_Cons [simp]: "exec P (e # es) c = exec P es (step P e c)"
  by (simp add: exec_def)

lemma exec_append [simp]: "exec P (es @ es') c = exec P es' (exec P es c)"
  by (simp add: exec_def)

lemma idsOk_exec: "idsOk c \<Longrightarrow> idsOk (exec P es c)"
  by (induction es arbitrary: c) (simp_all add: idsOk_step)

lemma singleFlight_exec: "idsOk c \<Longrightarrow> singleFlight c \<Longrightarrow> singleFlight (exec P es c)"
  by (induction es arbitrary: c) (simp_all add: idsOk_step singleFlight_step)

lemma stale_exec: "stale a c \<Longrightarrow> stale a (exec P es c)"
  by (induction es arbitrary: c) (simp_all add: stale_step)

lemma stale_settle: "stale a c \<Longrightarrow> settle P a c = c\<lparr>tasks := (tasks c)(a := None)\<rparr>"
proof (cases "tasks c a")
  case None
  then have "(tasks c)(a := None) = tasks c" by (simp add: fun_upd_idem)
  with None show ?thesis by (simp add: settle_def)
next
  case (Some t)
  assume "stale a c"
  with Some show ?thesis
    by (auto simp: stale_def settle_def settleRun_def wrappedPromise_def)
qed

lemma stale_runValidations:
  assumes "idsOk c" "singleFlight c" "tasks c a = Some (ValidationRun ka ra)"
  shows "stale a (runValidations P vals kb c)"
  using assms unfolding idsOk_def singleFlight_def stale_def
  by (auto simp: less_Suc_eq)

lemma settleRun_tasks_irrelevant:
  "state (settleRun P i k r (c\<lparr>tasks := T\<rparr>)) = state (settleRun P i k r c)"
  by (simp add: settleRun_def wrappedPromise_def afterRun_def afterValidateForm_def
      afterSubmitValidation_def executeSubmit_def setState_def Let_def split_beta
      split: option.splits caller.splits settled.splits)

lemma settle_tasks_irrelevant:
  "a \<noteq> b \<Longrightarrow>
   state (settle P b (c\<lparr>tasks := (tasks c)(a := None)\<rparr>)) = state (settle P b c)"
  by (simp add: settle_def settleRun_tasks_irrelevant settleField_def settleReset_def
      resetForm_def setState_def Let_def split: option.splits task.splits settled.splits)

lemma settle_commits:
  assumes "tasks d i = Some (ValidationRun k (Fulfilled errs))" "\<not> hasCanceled d i" "didMount d"
  shows "errors (state (settle P i d)) = errs"
  using assms
  by (cases k)
     (simp_all add: settle_def settleRun_def wrappedPromise_def afterRun_def afterValidateForm_def
      afterSubmitValidation_def executeSubmit_def setState_def commitErrors_def isEqual_def
      Let_def split_beta split: option.splits)

lemma cacheOk_init: "cacheOk (init P)"
  by (simp add: cacheOk_def init_def emptyCache_def)

lemma cachePut_own:
  "cachePut cache q h' = Some cache' \<Longrightarrow> cacheGet cache q = NotAFunction \<Longrightarrow>
   own cache p = Some h \<Longrightarrow> own cache' p = Some h"
  by (auto simp: cachePut_def cacheGet_def split: if_splits)

lemma cachePut_own_cases:
  "cachePut cache q h' = Some cache' \<Longrightarrow> own cache' p = Some h \<Longrightarrow>
   own cache p = Some h \<or> (p = q \<and> h = h')"
  by (auto simp: cachePut_def split: if_splits)

lemma cacheOk_step: "idsOk c \<Longrightarrow> cacheOk c \<Longrightarrow> cacheOk (step P e c)"
  unfolding idsOk_def cacheOk_def
  by (cases e;
      (auto simp: op_defs Let_def dest: cachePut_own_cases split: step_splits if_splits)?;
      (blast | metis cachePut_own_cases less_irrefl option.distinct(1)))

lemma cacheOk_exec: "idsOk c \<Longrightarrow> cacheOk c \<Longrightarrow> cacheOk (exec P es c)"
  by (induction es arbitrary: c) (simp_all add: idsOk_step cacheOk_step)

lemma own_step: "own (hcCache c) p = Some h \<Longrightarrow> own (hcCache (step P e c)) p = Some h"
  by (cases e) (auto simp: op_defs Let_def dest: cachePut_own split: step_splits)

lemma own_exec: "own (hcCache c) p = Some h \<Longrightarrow> own (hcCache (exec P es c)) p = Some h"
  by (induction es arbitrary: c) (simp_all add: own_step)

lemma didMount_exec:
  "ComponentDidMount \<notin> set es \<Longrightarrow> \<not> didMount c \<Longrightarrow> \<not> didMount (exec P es c)"
  by (induction es arbitrary: c) (auto simp: step_didMount)

lemma unmounted_settle:
  assumes "\<not> didMount d" "\<forall>r. tasks d i \<noteq> Some (ResetPromise r)"
  shows "state (settle P i d) = state d \<and> initialValues (settle P i d) = initialValues d"
  using assms
  by (auto simp: settle_def settleRun_def wrappedPromise_def afterRun_def afterValidateForm_def
      afterSubmitValidation_def executeSubmit_def settleField_def Let_def split_beta
      split: option.splits task.splits caller.splits settled.splits)

lemma idsOk_reach: "idsOk (exec P es (init P))"
  by (simp add: idsOk_exec idsOk_init)

lemma singleFlight_reach: "singleFlight (exec P es (init P))"
  by (simp add: singleFlight_exec idsOk_init singleFlight_init)

lemma cacheOk_reach: "cacheOk (exec P es (init P))"
  by (simp add: cacheOk_exec idsOk_init cacheOk_init)

lemma submitForm_fields [simp]:
  "state (submitForm P c) = (state c)\<lparr>touched := setNestedAllTrue (values_s (state c)),
                   isSubmitting := True, isValidating := True,
                   submitCount := submitCount (state c) + 1\<rparr>"
  "didMount (submitForm P c) = didMount c"
  "submitted (submitForm P c) = submitted c"
  "returned (submitForm P c) = returned c"
  "nextId (submitForm P c) = Suc (nextId c)"
  "tasks (submitForm P c) =
     (tasks c)(nextId c \<mapsto>
        ValidationRun BySubmitForm (pipeline P (fields_r c) (values_s (state c))))"
  "hasCanceled (submitForm P c) (nextId c) = False"
  by (simp_all add: submitForm_def Let_def)

lemma settle_submit_invalid:
  assumes "tasks d i = Some (ValidationRun BySubmitForm (Fulfilled errs))"
      and "\<not> hasCanceled d i" and "didMount d" and "numKeys errs = Some n" and "0 < n"
  shows "state (settle P i d) =
           (state d)\<lparr>errors := errs, isValidating := False, isSubmitting := False\<rparr>"
    and "submitted (settle P i d) = submitted d"
    and "returned (settle P i d) i = Some (Fulfilled Undefined)"
  using assms
  by (simp_all add: settle_def settleRun_def wrappedPromise_def afterRun_def
      afterSubmitValidation_def commitErrors_def isEqual_def Let_def)

lemma settle_submit_valid:
  assumes "tasks d i = Some (ValidationRun BySubmitForm (Fulfilled errs))"
      and "\<not> hasCanceled d i" and "didMount d" and "numKeys errs = Some 0"
  shows "state (settle P i d) = (state d)\<lparr>errors := errs, isValidating := False\<rparr>"
    and "submitted (settle P i d) = submitted d @ [values_s (state d)]"
    and "returned (settle P i d) i = Some (promiseOfCall (onSubmit P (values_s (state d))))"
  using assms
  by (simp_all add: settle_def settleRun_def wrappedPromise_def afterRun_def
      afterSubmitValidation_def executeSubmit_def commitErrors_def isEqual_def Let_def)

lemma settle_submit_keeps_isSubmitting:
  assumes "tasks d i = Some (ValidationRun BySubmitForm (Fulfilled errs))"
      and "numKeys errs = Some 0"
  shows "isSubmitting (state (settle P i d)) = isSubmitting (state d)"
  using assms
  by (simp add: settle_def settleRun_def wrappedPromise_def afterRun_def
      afterSubmitValidation_def executeSubmit_def commitErrors_def isEqual_def Let_def)

lemma emailForm_sel:
  "validateOnChange emailForm" "validateOnBlur emailForm"
  "initialValues_p emailForm = blankEmail" "initialStatus emailForm = Undefined"
  "validate_p emailForm = None" "validationSchema emailForm = Some acceptsAll"
  "onSubmit emailForm = sends" "onReset emailForm = Some resetsLater"
  by (simp_all add: emailForm_def)

lemma stale_unmount:
  assumes "idsOk c" "singleFlight c" "tasks c i = Some (ValidationRun k r)"
  shows "stale i (componentWillUnmount c)"
  using assms unfolding idsOk_def singleFlight_def stale_def
  by (auto simp: componentWillUnmount_def Let_def split: option.splits; blast)

lemma unmount_didMount: "\<not> didMount (componentWillUnmount c)"
  by (simp add: componentWillUnmount_def Let_def split: option.splits)

lemma unmounted_setFieldValue: "\<not> didMount d \<Longrightarrow> setFieldValue P f v b d = d"
  by (simp add: setFieldValue_def)

lemma unmounted_setSubmitting: "\<not> didMount d \<Longrightarrow> setSubmitting b d = d"
  by (simp add: setSubmitting_def)

section \<open>The login form: evaluated facts\<close>

lemmas ctl_simps = op_defs init_def emailForm_def mounted_def mountedWithField_def

lemma mountedWithField_facts: "didMount mountedWithField" "nextId mountedWithField = 0"
  "fields_r mountedWithField = [(''email'', Some requiresEmail)]"
  "values_s (state mountedWithField) = blankEmail"
  "submitCount (state mountedWithField) = 0"
  "submitted mountedWithField = []"
  by (simp_all add: ctl_simps orEmpty_def blankEmail_def)

lemma pipeline_required: "pipeline emailForm [(''email'', Some requiresEmail)] blankEmail =
   Fulfilled (Obj (fmap_of_list [(''email'', Str ''Required'')]))"
  by code_simp

lemma mounted_facts: "didMount mounted" "nextId mounted = 0" "fields_r mounted = []"
  "values_s (state mounted) = blankEmail" "submitted mounted = []"
  by (simp_all add: ctl_simps orEmpty_def blankEmail_def)

lemma pipeline_empty: "pipeline emailForm [] blankEmail = Fulfilled emptyObj"
  by code_simp

lemma validating_fields:
  "didMount validating" "nextId validating = 1"
  "fields_r validating = [(''email'', Some requiresEmail)]"
  "tasks validating 0 = Some (ValidationRun ByValidateForm
      (pipeline emailForm [(''email'', Some requiresEmail)] blankEmail))"
  by (simp_all add: validating_def ctl_simps)

section \<open>Superseded validation runs\<close>

text \<open>
  C1: let run A be pending in a state the controller can reach, and let \<^verbatim>\<open>runValidations\<close>
  start run B. Then A's handle is canceled and B's is the stored one, not canceled;
  whenever A settles afterwards, after any further events, nothing changes but that A
  is no longer pending; in either order of completion the state is the one B's
  settlement alone produces; and on a mounted controller the errors committed are
  B's result.
\<close>

theorem C1_stale_run_never_commits:
  assumes "tasks (exec P es0 (init P)) a = Some (ValidationRun ka ra)"
  shows "let c = exec P es0 (init P); b = nextId c; c1 = runValidations P vals kb c in
     hasCanceled c1 a \<and> \<not> hasCanceled c1 b \<and> validator c1 = Some b \<and>
     tasks c1 b = Some (ValidationRun kb (pipeline P (fields_r c) vals)) \<and>
     (\<forall>es. exec P (es @ [Settle a]) c1 =
            (exec P es c1)\<lparr>tasks := (tasks (exec P es c1))(a := None)\<rparr>) \<and>
     state (exec P [Settle a, Settle b] c1) = state (exec P [Settle b] c1) \<and>
     state (exec P [Settle b, Settle a] c1) = state (exec P [Settle b] c1) \<and>
     (\<forall>errs. didMount c \<and> pipeline P (fields_r c) vals = Fulfilled errs \<longrightarrow>
        errors (state (exec P [Settle a, Settle b] c1)) = errs \<and>
        errors (state (exec P [Settle b, Settle a] c1)) = errs)"
proof -
  define c where "c = exec P es0 (init P)"
  define b where "b = nextId c"
  define c1 where "c1 = runValidations P vals kb c"
  have ids: "idsOk c" and sf: "singleFlight c"
    by (simp_all add: c_def idsOk_reach singleFlight_reach)
  have pend: "tasks c a = Some (ValidationRun ka ra)" using assms by (simp add: c_def)
  have st: "stale a c1" unfolding c1_def by (rule stale_runValidations[OF ids sf pend])
  have ab: "a \<noteq> b" using ids pend by (auto simp: idsOk_def b_def)
  have 1: "hasCanceled c1 a" using st by (simp add: stale_def)
  have 2: "\<not> hasCanceled c1 b" by (simp add: c1_def b_def)
  have 3: "validator c1 = Some b" by (simp add: c1_def b_def)
  have 4: "tasks c1 b = Some (ValidationRun kb (pipeline P (fields_r c) vals))"
    by (simp add: c1_def b_def)
  have 5: "exec P (es @ [Settle a]) c1 =
            (exec P es c1)\<lparr>tasks := (tasks (exec P es c1))(a := None)\<rparr>" for es
    using stale_settle[OF stale_exec[OF st, of P es], of P] by simp
  have sa: "settle P a c1 = c1\<lparr>tasks := (tasks c1)(a := None)\<rparr>"
    using stale_settle[OF st] .
  have 6: "state (exec P [Settle a, Settle b] c1) = state (exec P [Settle b] c1)"
    using ab by (simp add: sa settle_tasks_irrelevant)
  have 7: "state (exec P [Settle b, Settle a] c1) = state (exec P [Settle b] c1)"
    using 5[of "[Settle b]"] by simp
  have 8: "errors (state (exec P [Settle a, Settle b] c1)) = errs \<and>
        errors (state (exec P [Settle b, Settle a] c1)) = errs"
    if "didMount c \<and> pipeline P (fields_r c) vals = Fulfilled errs" for errs
  proof -
    have "tasks c1 b = Some (ValidationRun kb (Fulfilled errs))" using 4 that by simp
    moreover have "didMount c1" using that by (simp add: c1_def)
    ultimately have "errors (state (settle P b c1)) = errs"
      using 2 by (simp add: settle_commits)
    then show ?thesis using 6 7 by simp
  qed
  show ?thesis
    unfolding Let_def c_def[symmetric] b_def[symmetric] c1_def[symmetric]
    using 1 2 3 4 5 6 7 8 by blast
qed

theorem C1_witness:
  "tasks (exec emailForm
       [ComponentDidMount, RegisterField ''email'' (Some requiresEmail), ValidateForm blankEmail]
       (init emailForm)) 0 =
     Some (ValidationRun ByValidateForm (Fulfilled (Obj (fmap_of_list [(''email'', Str ''Required'')])))) \<and>
   hasCanceled superseded 0 \<and> \<not> hasCanceled superseded 1 \<and> validator superseded = Some 1 \<and>
   state (exec emailForm [Settle 0] superseded) = state superseded \<and>
   state (exec emailForm [Settle 0, Settle 1] superseded) =
     state (exec emailForm [Settle 1] superseded) \<and>
   state (exec emailForm [Settle 1, Settle 0] superseded) =
     state (exec emailForm [Settle 1] superseded) \<and>
   errors (state (exec emailForm [Settle 0, Settle 1] superseded)) =
     Obj (fmap_of_list [(''email'', Str ''Required'')]) \<and>
   errors (state (exec emailForm [Settle 1, Settle 0] superseded)) =
     Obj (fmap_of_list [(''email'', Str ''Required'')])"
proof -
  have h: "tasks (exec emailForm
       [ComponentDidMount, RegisterField ''email'' (Some requiresEmail), ValidateForm blankEmail]
       (init emailForm)) 0 =
     Some (ValidationRun ByValidateForm (Fulfilled (Obj (fmap_of_list [(''email'', Str ''Required'')]))))"
    using validating_fields(4) by (simp only: validating_def pipeline_required)
  note T = C1_stale_run_never_commits[OF h, of blankEmail ByRunValidations,
      unfolded Let_def, folded validating_def, unfolded validating_fields, folded superseded_def]
  have e: "exec emailForm ([] @ [Settle 0]) superseded =
      (exec emailForm [] superseded)\<lparr>tasks := (tasks (exec emailForm [] superseded))(0 := None)\<rparr>"
    using T by blast
  have s0: "state (exec emailForm [Settle 0] superseded) = state superseded"
    using e by simp
  have p: "didMount validating \<and> pipeline emailForm [(''email'', Some requiresEmail)] blankEmail =
      Fulfilled (Obj (fmap_of_list [(''email'', Str ''Required'')]))"
    by (simp only: validating_fields pipeline_required)
  show ?thesis using h T s0 p by blast
qed

section \<open>Submission\<close>

text \<open>
  C3: on a mounted controller, \<^verbatim>\<open>submitForm()\<close> followed by the settlement of its
  validation run, when the merged tree has at least one top-level key: the merged tree
  is the errors state, the submit handler is not called, \<^verbatim>\<open>isSubmitting\<close> (true
  during validation) and \<^verbatim>\<open>isValidating\<close> end false, \<^verbatim>\<open>submitCount\<close> has grown by
  one and the promise of \<^verbatim>\<open>submitForm()\<close> fulfils with undefined.
\<close>

theorem C3_submit_with_errors:
  assumes "didMount c"
      and "pipeline P (fields_r c) (values_s (state c)) = Fulfilled errs"
      and "numKeys errs = Some n" and "0 < n"
  shows "let c' = exec P [SubmitForm, Settle (nextId c)] c in
           isSubmitting (state (submitForm P c)) \<and>
           errors (state c') = errs \<and>
           submitted c' = submitted c \<and>
           \<not> isSubmitting (state c') \<and>
           \<not> isValidating (state c') \<and>
           submitCount (state c') = submitCount (state c) + 1 \<and>
           returned c' (nextId c) = Some (Fulfilled Undefined)"
proof -
  have t: "tasks (submitForm P c) (nextId c) = Some (ValidationRun BySubmitForm (Fulfilled errs))"
    using assms(2) by simp
  have nc: "\<not> hasCanceled (submitForm P c) (nextId c)" by simp
  have m: "didMount (submitForm P c)" using assms(1) by simp
  note s = settle_submit_invalid[OF t nc m assms(3) assms(4), of P]
  show ?thesis by (simp add: Let_def s)
qed

theorem C3_witness:
  "didMount mountedWithField \<and>
   pipeline emailForm (fields_r mountedWithField) (values_s (state mountedWithField)) =
     Fulfilled (Obj (fmap_of_list [(''email'', Str ''Required'')])) \<and>
   numKeys (Obj (fmap_of_list [(''email'', Str ''Required'')])) = Some 1 \<and>
   getIn (errors (state (exec emailForm [SubmitForm, Settle 0] mountedWithField))) ''email'' =
     Str ''Required'' \<and>
   submitted (exec emailForm [SubmitForm, Settle 0] mountedWithField) = [] \<and>
   \<not> isSubmitting (state (exec emailForm [SubmitForm, Settle 0] mountedWithField)) \<and>
   submitCount (state (exec emailForm [SubmitForm, Settle 0] mountedWithField)) = 1 \<and>
   returned (exec emailForm [SubmitForm, Settle 0] mountedWithField) 0 = Some (Fulfilled Undefined)"
proof -
  have h1: "didMount mountedWithField" by (rule mountedWithField_facts)
  have h2: "pipeline emailForm (fields_r mountedWithField) (values_s (state mountedWithField)) =
     Fulfilled (Obj (fmap_of_list [(''email'', Str ''Required'')]))"
    by (simp only: mountedWithField_facts pipeline_required)
  have h3: "numKeys (Obj (fmap_of_list [(''email'', Str ''Required'')])) = Some 1"
    by code_simp
  have h4: "0 < (1::nat)" by simp
  have g: "getIn (Obj (fmap_of_list [(''email'', Str ''Required'')])) ''email'' = Str ''Required''"
    by code_simp
  show ?thesis
    using C3_submit_with_errors[OF h1 h2 h3 h4] h1 h2 h3 g
    by (simp add: Let_def mountedWithField_facts)
qed

text \<open>
  C4: on a mounted controller, \<^verbatim>\<open>submitForm()\<close> followed by the settlement of its
  validation run, when the merged tree has no top-level key: the submit handler is
  called once more, with the current values; the promise of \<^verbatim>\<open>submitForm()\<close> settles
  as the handler's result does; \<^verbatim>\<open>isValidating\<close> ends false and \<^verbatim>\<open>isSubmitting\<close>
  stays true. In any state, the settlement of such a run leaves \<^verbatim>\<open>isSubmitting\<close>
  as it was.
\<close>

theorem C4_submit_valid:
  assumes "didMount c"
      and "pipeline P (fields_r c) (values_s (state c)) = Fulfilled errs"
      and "numKeys errs = Some 0"
  shows "(let c' = exec P [SubmitForm, Settle (nextId c)] c in
           submitted c' = submitted c @ [values_s (state c)] \<and>
           returned c' (nextId c) = Some (promiseOfCall (onSubmit P (values_s (state c)))) \<and>
           \<not> isValidating (state c') \<and>
           isSubmitting (state c')) \<and>
         (\<forall>d i. tasks d i = Some (ValidationRun BySubmitForm (Fulfilled errs)) \<longrightarrow>
            isSubmitting (state (settle P i d)) = isSubmitting (state d))"
proof -
  have t: "tasks (submitForm P c) (nextId c) = Some (ValidationRun BySubmitForm (Fulfilled errs))"
    using assms(2) by simp
  have nc: "\<not> hasCanceled (submitForm P c) (nextId c)" by simp
  have m: "didMount (submitForm P c)" using assms(1) by simp
  note s = settle_submit_valid[OF t nc m assms(3), of P]
  show ?thesis using settle_submit_keeps_isSubmitting[OF _ assms(3)] by (simp add: Let_def s)
qed

theorem C4_witness:
  "didMount mounted \<and>
   pipeline emailForm (fields_r mounted) (values_s (state mounted)) = Fulfilled emptyObj \<and>
   numKeys emptyObj = Some 0 \<and>
   submitted (exec emailForm [SubmitForm, Settle 0] mounted) = [blankEmail] \<and>
   returned (exec emailForm [SubmitForm, Settle 0] mounted) 0 = Some (Fulfilled (Str ''sent'')) \<and>
   \<not> isValidating (state (exec emailForm [SubmitForm, Settle 0] mounted)) \<and>
   isSubmitting (state (exec emailForm [SubmitForm, Settle 0] mounted)) \<and>
   tasks (submitForm emailForm mounted) 0 =
     Some (ValidationRun BySubmitForm (Fulfilled emptyObj)) \<and>
   isSubmitting (state (settle emailForm 0 (submitForm emailForm mounted))) =
     isSubmitting (state (submitForm emailForm mounted))"
proof -
  have h1: "didMount mounted" by (rule mounted_facts)
  have h2: "pipeline emailForm (fields_r mounted) (values_s (state mounted)) = Fulfilled emptyObj"
    by (simp only: mounted_facts pipeline_empty)
  have h3: "numKeys emptyObj = Some 0" by code_simp
  have r: "promiseOfCall (onSubmit emailForm blankEmail) = Fulfilled (Str ''sent'')"
    by (simp add: emailForm_def sends_def promiseOfCall_def)
  have t: "tasks (submitForm emailForm mounted) 0 =
      Some (ValidationRun BySubmitForm (Fulfilled emptyObj))"
    using h2 by (simp add: mounted_facts)
  have k: "isSubmitting (state (settle emailForm 0 (submitForm emailForm mounted))) =
      isSubmitting (state (submitForm emailForm mounted))"
    using C4_submit_valid[OF h1 h2 h3, THEN conjunct2] t by blast
  have m: "submitted (exec emailForm [SubmitForm, Settle 0] mounted) = [blankEmail] \<and>
      returned (exec emailForm [SubmitForm, Settle 0] mounted) 0 = Some (Fulfilled (Str ''sent'')) \<and>
      \<not> isValidating (state (exec emailForm [SubmitForm, Settle 0] mounted)) \<and>
      isSubmitting (state (exec emailForm [SubmitForm, Settle 0] mounted))"
    using C4_submit_valid[OF h1 h2 h3, THEN conjunct1] r
    by (simp add: Let_def mounted_facts)
  show ?thesis using h1 h2 h3 t k m by blast
qed

section \<open>Teardown\<close>

text \<open>
  C8: the code breaks the claim where the reset handler's promise settles after
  teardown. The continuation \<^verbatim>\<open>then(this.resetForm)\<close> of \<^verbatim>\<open>handleReset\<close> (line 559)
  has no \<open>didMount\<close> test, unlike the continuations of \<^verbatim>\<open>runValidations\<close>,
  \<^verbatim>\<open>validateForm\<close>, \<^verbatim>\<open>submitForm\<close> and \<^verbatim>\<open>validateField\<close>: on a mounted login
  form, \<^verbatim>\<open>handleReset()\<close>, then teardown, then the promise fulfilling with a new
  value tree, \<^verbatim>\<open>resetForm\<close> runs and assigns \<^verbatim>\<open>this.initialValues\<close>.
\<close>

theorem C8_reset_after_teardown:
  "\<not> didMount tornDownResetting \<and>
   tasks tornDownResetting 0 = Some (ResetPromise (Fulfilled newEmail)) \<and>
   initialValues tornDownResetting = blankEmail \<and>
   initialValues (exec emailForm [Settle 0] tornDownResetting) = newEmail \<and>
   newEmail \<noteq> blankEmail"
proof -
  have ne: "newEmail \<noteq> blankEmail" by code_simp
  have t: "truthy newEmail" "truthy blankEmail" by (simp_all add: newEmail_def blankEmail_def)
  show ?thesis
    using ne t
    by (simp add: tornDownResetting_def ctl_simps orEmpty_def isPromise_def resetsLater_def
        settle_def settleReset_def resetForm_def Let_def)
qed

text \<open>
  What the guards that are there do achieve. After \<^verbatim>\<open>componentWillUnmount\<close>, \<open>didMount\<close>
  is false; every whole-form run pending at teardown is canceled, and whenever it
  settles afterwards nothing changes but that it is no longer pending; as long as the
  component is not mounted again, the settlement of a whole-form run or of
  \<^verbatim>\<open>validateField\<close> leaves the form state and the remembered initial values as they
  are, and \<^verbatim>\<open>setFieldValue\<close> and \<^verbatim>\<open>setSubmitting\<close> do nothing.
\<close>

lemma teardown_guards:
  "let c' = componentWillUnmount (exec P es0 (init P)) in
     \<not> didMount c' \<and>
     (\<forall>i k r. tasks (exec P es0 (init P)) i = Some (ValidationRun k r) \<longrightarrow>
        hasCanceled c' i \<and>
        (\<forall>es. exec P (es @ [Settle i]) c' =
               (exec P es c')\<lparr>tasks := (tasks (exec P es c'))(i := None)\<rparr>)) \<and>
     (\<forall>es i. ComponentDidMount \<notin> set es \<and>
              (\<forall>r. tasks (exec P es c') i \<noteq> Some (ResetPromise r)) \<longrightarrow>
        state (exec P (es @ [Settle i]) c') = state (exec P es c') \<and>
        initialValues (exec P (es @ [Settle i]) c') = initialValues (exec P es c')) \<and>
     (\<forall>es f v b. ComponentDidMount \<notin> set es \<longrightarrow>
        exec P (es @ [SetFieldValue f v b]) c' = exec P es c' \<and>
        exec P (es @ [SetSubmitting b]) c' = exec P es c')"
proof -
  define c where "c = exec P es0 (init P)"
  define c' where "c' = componentWillUnmount c"
  have ids: "idsOk c" and sf: "singleFlight c"
    by (simp_all add: c_def idsOk_reach singleFlight_reach)
  have 1: "\<not> didMount c'" by (simp add: c'_def unmount_didMount)
  have 2: "hasCanceled c' i \<and>
        (\<forall>es. exec P (es @ [Settle i]) c' =
               (exec P es c')\<lparr>tasks := (tasks (exec P es c'))(i := None)\<rparr>)"
    if "tasks c i = Some (ValidationRun k r)" for i k r
  proof -
    have st: "stale i c'" unfolding c'_def by (rule stale_unmount[OF ids sf that])
    have "exec P (es @ [Settle i]) c' =
               (exec P es c')\<lparr>tasks := (tasks (exec P es c'))(i := None)\<rparr>" for es
      using stale_settle[OF stale_exec[OF st, of P es], of P] by simp
    then show ?thesis using st by (simp add: stale_def)
  qed
  have 3: "state (exec P (es @ [Settle i]) c') = state (exec P es c') \<and>
        initialValues (exec P (es @ [Settle i]) c') = initialValues (exec P es c')"
    if "ComponentDidMount \<notin> set es \<and> (\<forall>r. tasks (exec P es c') i \<noteq> Some (ResetPromise r))"
    for es i
  proof -
    have "\<not> didMount (exec P es c')" using that 1 by (simp add: didMount_exec)
    then show ?thesis using that unmounted_settle[of "exec P es c'" i P] by simp
  qed
  have 4: "exec P (es @ [SetFieldValue f v b]) c' = exec P es c' \<and>
        exec P (es @ [SetSubmitting b]) c' = exec P es c'"
    if "ComponentDidMount \<notin> set es" for es f v b
  proof -
    have "\<not> didMount (exec P es c')" using that 1 by (simp add: didMount_exec)
    then show ?thesis by (simp add: unmounted_setFieldValue unmounted_setSubmitting)
  qed
  show ?thesis
    unfolding Let_def c_def[symmetric] c'_def[symmetric]
    using 1 2 3 4 by blast
qed

lemma teardown_guards_example:
  "tasks (exec emailForm
       [ComponentDidMount, RegisterField ''email'' (Some requiresEmail),
        ValidateField ''email'', SubmitForm] (init emailForm)) 1 =
     Some (ValidationRun BySubmitForm (Fulfilled (Obj (fmap_of_list [(''email'', Str ''Required'')])))) \<and>
   tasks tornDownValidating 0 = Some (FieldValidation ''email'' (Fulfilled (Str ''Required''))) \<and>
   \<not> didMount tornDownValidating \<and>
   hasCanceled tornDownValidating 1 \<and>
   state (exec emailForm [Settle 1] tornDownValidating) = state tornDownValidating \<and>
   state (exec emailForm [Settle 0] tornDownValidating) = state tornDownValidating \<and>
   exec emailForm [SetFieldValue ''email'' (Str ''x'') True] tornDownValidating = tornDownValidating \<and>
   exec emailForm [SetSubmitting False] tornDownValidating = tornDownValidating"
proof -
  have h: "tasks (exec emailForm
       [ComponentDidMount, RegisterField ''email'' (Some requiresEmail),
        ValidateField ''email'', SubmitForm] (init emailForm)) 1 =
     Some (ValidationRun BySubmitForm (Fulfilled (Obj (fmap_of_list [(''email'', Str ''Required'')]))))"
    using pipeline_required by (simp add: op_defs init_def emailForm_sel orEmpty_def blankEmail_def)
  have g: "getIn blankEmail ''email'' = Str []" by code_simp
  have f: "tasks tornDownValidating 0 = Some (FieldValidation ''email'' (Fulfilled (Str ''Required'')))"
    using g
    by (simp add: tornDownValidating_def ctl_simps orEmpty_def blankEmail_def
        runSingleFieldLevelValidation_def callValidate_def promiseOfCall_def thenBoth_def
        requiresEmail_def Let_def)
  note T = teardown_guards[of emailForm "[ComponentDidMount, RegisterField ''email'' (Some requiresEmail),
        ValidateField ''email'', SubmitForm]", unfolded Let_def, folded tornDownValidating_def]
  have a: "\<not> didMount tornDownValidating" using T by blast
  have b: "hasCanceled tornDownValidating 1" using T h by blast
  have c1: "exec emailForm ([] @ [Settle 1]) tornDownValidating =
     (exec emailForm [] tornDownValidating)\<lparr>tasks := (tasks (exec emailForm [] tornDownValidating))(1 := None)\<rparr>"
    using T h by blast
  have c: "state (exec emailForm [Settle 1] tornDownValidating) = state tornDownValidating"
    using c1 by simp
  have nr: "ComponentDidMount \<notin> set [] \<and>
      (\<forall>r. tasks (exec emailForm [] tornDownValidating) 0 \<noteq> Some (ResetPromise r))"
    using f by simp
  have d1: "state (exec emailForm ([] @ [Settle 0]) tornDownValidating) =
      state (exec emailForm [] tornDownValidating)"
    using T nr by blast
  have d: "state (exec emailForm [Settle 0] tornDownValidating) = state tornDownValidating"
    using d1 by simp
  have e1: "exec emailForm ([] @ [SetFieldValue ''email'' (Str ''x'') True]) tornDownValidating =
       exec emailForm [] tornDownValidating \<and>
     exec emailForm ([] @ [SetSubmitting False]) tornDownValidating = exec emailForm [] tornDownValidating"
    using T by (metis empty_iff empty_set)
  have e: "exec emailForm [SetFieldValue ''email'' (Str ''x'') True] tornDownValidating = tornDownValidating"
     "exec emailForm [SetSubmitting False] tornDownValidating = tornDownValidating"
    using e1 by simp_all
  show ?thesis using h f a b c d e by blast
qed

section \<open>Memoized change handlers\<close>

lemma cacheGet_ordinary:
  "\<not> inheritedName p \<Longrightarrow>
   cacheGet cache p =
     (case own cache p of Some h \<Rightarrow> Function (Closure h) | None \<Rightarrow> NotAFunction)"
  by (auto simp: inheritedName_def cacheGet_def fromObjectPrototype_def fromArrowFunction_def
      fromFunctionPrototype_def split: option.splits)

lemma cachePut_ordinary:
  "\<not> inheritedName p \<Longrightarrow> cachePut cache p h = Some (cache\<lparr>own := (own cache)(p \<mapsto> h)\<rparr>)"
  by (auto simp: inheritedName_def cachePut_def)

lemma handleChange_ordinary:
  assumes "\<not> inheritedName p"
  shows "\<exists>h. fst (handleChange P (Path p) c) = Returned (Closure h) \<and>
             own (hcCache (snd (handleChange P (Path p) c))) p = Some h"
  using assms
  by (auto simp: handleChange_def cacheGet_ordinary cachePut_ordinary resultOf_def
      split: option.splits)

lemma handleChange_cached:
  assumes "\<not> inheritedName p" "own (hcCache c) p = Some h"
  shows "fst (handleChange P (Path p) c) = Returned (Closure h)"
  using assms by (simp add: handleChange_def cacheGet_ordinary resultOf_def)

text \<open>
  For a path that is no inherited name the cache works as the claim says: in a state
  the controller can reach, \<^verbatim>\<open>handleChange(p)\<close> returns a closure; called again at
  once, or after any further events (teardown included), it returns the same closure,
  which still is the change handler of \<open>p\<close>; for another such path it returns a
  different closure.
\<close>

lemma handleChange_memoized_ordinary:
  assumes "\<not> inheritedName p"
  shows "let c = exec P es0 (init P);
       h1 = fst (handleChange P (Path p) c);
       c1 = snd (handleChange P (Path p) c);
       c2 = exec P es c1
   in (\<exists>h. h1 = Returned (Closure h) \<and> closures c2 h = Some (ChangeHandler p)) \<and>
      fst (handleChange P (Path p) c1) = h1 \<and>
      fst (handleChange P (Path p) c2) = h1 \<and>
      (\<not> inheritedName q \<and> p \<noteq> q \<longrightarrow>
         (\<exists>h. fst (handleChange P (Path q) c2) = Returned (Closure h)) \<and>
         fst (handleChange P (Path q) c2) \<noteq> h1)"
proof -
  define c where "c = exec P es0 (init P)"
  define h1 where "h1 = fst (handleChange P (Path p) c)"
  define c1 where "c1 = snd (handleChange P (Path p) c)"
  define c2 where "c2 = exec P es c1"
  define c3 where "c3 = snd (handleChange P (Path q) c2)"
  have c2s: "c2 = exec P (es0 @ HandleChange (Path p) # es) (init P)"
    by (simp add: c2_def c1_def c_def)
  have c3s: "c3 = exec P (es0 @ HandleChange (Path p) # es @ [HandleChange (Path q)]) (init P)"
    by (simp add: c3_def c2_def c1_def c_def)
  obtain h where h1h: "h1 = Returned (Closure h)" and h: "own (hcCache c1) p = Some h"
    using handleChange_ordinary[OF assms, of P c] by (auto simp: h1_def c1_def)
  have h2: "own (hcCache c2) p = Some h" using h by (simp add: c2_def own_exec)
  have h3: "own (hcCache c3) p = Some h"
    using own_step[OF h2, of P "HandleChange (Path q)"] by (simp add: c3_def)
  have ok2: "cacheOk c2" and ok3: "cacheOk c3"
    unfolding c2s c3s by (rule cacheOk_reach)+
  have cl: "closures c2 h = Some (ChangeHandler p)" using ok2 h2 by (simp add: cacheOk_def)
  have r1: "fst (handleChange P (Path p) c1) = h1"
    using handleChange_cached[OF assms h] h1h by simp
  have r2: "fst (handleChange P (Path p) c2) = h1"
    using handleChange_cached[OF assms h2] h1h by simp
  have q: "(\<exists>h. fst (handleChange P (Path q) c2) = Returned (Closure h)) \<and>
         fst (handleChange P (Path q) c2) \<noteq> h1"
    if nq: "\<not> inheritedName q \<and> p \<noteq> q"
  proof -
    obtain hq where rq: "fst (handleChange P (Path q) c2) = Returned (Closure hq)"
      and hq: "own (hcCache c3) q = Some hq"
      using handleChange_ordinary[OF nq[THEN conjunct1], of P c2] by (auto simp: c3_def)
    have "closures c3 hq = Some (ChangeHandler q)" using ok3 hq by (simp add: cacheOk_def)
    moreover have "closures c3 h = Some (ChangeHandler p)" using ok3 h3 by (simp add: cacheOk_def)
    ultimately have "hq \<noteq> h" using nq by auto
    then show ?thesis using rq h1h by simp
  qed
  show ?thesis
    unfolding Let_def c_def[symmetric] h1_def[symmetric] c1_def[symmetric] c2_def[symmetric]
    using h1h cl r1 r2 q by blast
qed

text \<open>
  C9: the code breaks the claim for a path that names a property the cache object
  inherits. On a fresh mounted controller \<^verbatim>\<open>isFunction(this.hcCache['constructor'])\<close>
  is already true: \<^verbatim>\<open>handleChange('constructor')\<close> makes no handler and returns the
  built-in \<^verbatim>\<open>Object\<close>, leaving the instance as it was (likewise \<^verbatim>\<open>toString\<close>).
  \<^verbatim>\<open>handleChange('__proto__')\<close> does make a handler, and the assignment makes it
  the prototype of the cache; after that \<^verbatim>\<open>handleChange('constructor')\<close> returns the
  built-in \<^verbatim>\<open>Function\<close>: the same path, another reference.
\<close>

theorem C9_inherited_names:
  "fst (handleChange emailForm (Path ''constructor'') mounted) = Returned (Builtin ''Object'') \<and>
   snd (handleChange emailForm (Path ''constructor'') mounted) = mounted \<and>
   fst (handleChange emailForm (Path ''toString'') mounted) =
     Returned (Builtin ''Object.prototype.toString'') \<and>
   fst (handleChange emailForm (Path ''__proto__'') mounted) = Returned (Closure 0) \<and>
   fst (handleChange emailForm (Path ''constructor'')
          (exec emailForm [HandleChange (Path ''__proto__'')] mounted)) =
     Returned (Builtin ''Function'')"
  by (simp add: handleChange_def cacheGet_def cachePut_def resultOf_def fromObjectPrototype_def
      fromArrowFunction_def fromFunctionPrototype_def objectPrototypeMethods_def
      functionPrototypeMethods_def mounted_def init_def emptyCache_def componentDidMount_def)

section \<open>Reset\<close>

text \<open>
  C10: when the reset handler returns a promise, \<^verbatim>\<open>handleReset()\<close> itself resets
  nothing; when the promise fulfils with a truthy value, \<^verbatim>\<open>resetForm\<close> runs with that
  value, which becomes the values and the remembered initial values.
\<close>

theorem C10_reset_with_resolved_value:
  assumes "onReset P = Some h"
      and "h (values_s (state c)) = Return (Promise (Fulfilled v))"
      and "truthy v"
  shows "state (handleReset P c) = state c \<and>
         initialValues (handleReset P c) = initialValues c \<and>
         values_s (state (exec P [HandleReset, Settle (nextId c)] c)) = v \<and>
         initialValues (exec P [HandleReset, Settle (nextId c)] c) = v"
  using assms
  by (simp add: handleReset_def isPromise_def settle_def settleReset_def resetForm_def Let_def)

theorem C10_witness:
  "onReset emailForm = Some resetsLater \<and>
   resetsLater (values_s (state mounted)) = Return (Promise (Fulfilled newEmail)) \<and>
   truthy newEmail \<and>
   values_s (state (exec emailForm [HandleReset, Settle 0] mounted)) = newEmail \<and>
   initialValues (exec emailForm [HandleReset, Settle 0] mounted) = newEmail \<and>
   newEmail \<noteq> initialValues_p emailForm"
proof -
  have h1: "onReset emailForm = Some resetsLater" by (simp add: emailForm_def)
  have h2: "resetsLater (values_s (state mounted)) = Return (Promise (Fulfilled newEmail))"
    by (simp add: resetsLater_def)
  have h3: "truthy newEmail" by (simp add: newEmail_def)
  have ne: "newEmail \<noteq> initialValues_p emailForm"
    by (simp add: emailForm_def) code_simp
  show ?thesis
    using C10_reset_with_resolved_value[OF h1 h2 h3] h1 h2 h3 ne by (simp add: mounted_facts)
qed


end
